theory Spec2Isabelle
  imports Complex_Main "HOL-Library.Stream"
begin

section \<open>JavaScript numbers\<close>

text \<open>
  The program is TypeScript; every quantity is a JavaScript \<open>number\<close>. The model keeps
  the special values of that type, because the code divides, takes logarithms and square
  roots without any guard: a number is a finite value, an infinity or NaN. Finite
  arithmetic is exact (rounding, overflow and underflow of doubles are not modelled), and
  zero carries no sign: a division by zero divides by \<open>+0\<close>.
\<close>

datatype jsnum = Num real | PosInf | NegInf | NaN

instantiation jsnum :: "{uminus, plus, minus, times, inverse, abs, ord}"
begin

fun uminus_jsnum :: "jsnum \<Rightarrow> jsnum" where
  "- Num a = Num (- a)"
| "- PosInf = NegInf"
| "- NegInf = PosInf"
| "- NaN = NaN"

fun plus_jsnum :: "jsnum \<Rightarrow> jsnum \<Rightarrow> jsnum" where
  "Num a + Num b = Num (a + b)"
| "NaN + _ = NaN"
| "_ + NaN = NaN"
| "PosInf + NegInf = NaN"
| "NegInf + PosInf = NaN"
| "PosInf + _ = PosInf"
| "_ + PosInf = PosInf"
| "NegInf + _ = NegInf"
| "_ + NegInf = NegInf"

definition minus_jsnum :: "jsnum \<Rightarrow> jsnum \<Rightarrow> jsnum" where
  "x - y = x + (- y)" for x y :: jsnum

fun times_jsnum :: "jsnum \<Rightarrow> jsnum \<Rightarrow> jsnum" where
  "Num a * Num b = Num (a * b)"
| "NaN * _ = NaN"
| "_ * NaN = NaN"
| "PosInf * Num b = (if b = 0 then NaN else if 0 < b then PosInf else NegInf)"
| "NegInf * Num b = (if b = 0 then NaN else if 0 < b then NegInf else PosInf)"
| "Num a * PosInf = (if a = 0 then NaN else if 0 < a then PosInf else NegInf)"
| "Num a * NegInf = (if a = 0 then NaN else if 0 < a then NegInf else PosInf)"
| "PosInf * PosInf = PosInf"
| "PosInf * NegInf = NegInf"
| "NegInf * PosInf = NegInf"
| "NegInf * NegInf = PosInf"

fun divide_jsnum :: "jsnum \<Rightarrow> jsnum \<Rightarrow> jsnum" where
  "divide_jsnum (Num a) (Num b) =
     (if b = 0 then (if a = 0 then NaN else if 0 < a then PosInf else NegInf)
      else Num (a / b))"
| "divide_jsnum NaN _ = NaN"
| "divide_jsnum _ NaN = NaN"
| "divide_jsnum (Num a) PosInf = Num 0"
| "divide_jsnum (Num a) NegInf = Num 0"
| "divide_jsnum PosInf (Num b) = (if 0 \<le> b then PosInf else NegInf)"
| "divide_jsnum NegInf (Num b) = (if 0 \<le> b then NegInf else PosInf)"
| "divide_jsnum PosInf _ = NaN"
| "divide_jsnum NegInf _ = NaN"

definition inverse_jsnum :: "jsnum \<Rightarrow> jsnum" where
  "inverse x = divide (Num 1) x" for x :: jsnum

fun abs_jsnum :: "jsnum \<Rightarrow> jsnum" where
  "\<bar>Num a\<bar> = Num \<bar>a\<bar>"
| "\<bar>PosInf\<bar> = PosInf"
| "\<bar>NegInf\<bar> = PosInf"
| "\<bar>NaN\<bar> = NaN"

fun less_jsnum :: "jsnum \<Rightarrow> jsnum \<Rightarrow> bool" where
  "Num a < Num b \<longleftrightarrow> a < b"
| "NaN < _ \<longleftrightarrow> False"
| "_ < NaN \<longleftrightarrow> False"
| "_ < NegInf \<longleftrightarrow> False"
| "PosInf < _ \<longleftrightarrow> False"
| "NegInf < _ \<longleftrightarrow> True"
| "_ < PosInf \<longleftrightarrow> True"

fun less_eq_jsnum :: "jsnum \<Rightarrow> jsnum \<Rightarrow> bool" where
  "Num a \<le> Num b \<longleftrightarrow> a \<le> b"
| "NaN \<le> _ \<longleftrightarrow> False"
| "_ \<le> NaN \<longleftrightarrow> False"
| "NegInf \<le> _ \<longleftrightarrow> True"
| "_ \<le> PosInf \<longleftrightarrow> True"
| "_ \<le> NegInf \<longleftrightarrow> False"
| "PosInf \<le> _ \<longleftrightarrow> False"

instance ..

end

text \<open>The functions of \<open>Math\<close> that the program calls.\<close>

fun Math_exp :: "jsnum \<Rightarrow> jsnum" where
  "Math_exp (Num a) = Num (exp a)"
| "Math_exp PosInf = PosInf"
| "Math_exp NegInf = Num 0"
| "Math_exp NaN = NaN"

fun Math_log :: "jsnum \<Rightarrow> jsnum" where
  "Math_log (Num a) = (if 0 < a then Num (ln a) else if a = 0 then NegInf else NaN)"
| "Math_log PosInf = PosInf"
| "Math_log NegInf = NaN"
| "Math_log NaN = NaN"

fun Math_sqrt :: "jsnum \<Rightarrow> jsnum" where
  "Math_sqrt (Num a) = (if 0 \<le> a then Num (sqrt a) else NaN)"
| "Math_sqrt PosInf = PosInf"
| "Math_sqrt NegInf = NaN"
| "Math_sqrt NaN = NaN"

fun Math_cos :: "jsnum \<Rightarrow> jsnum" where
  "Math_cos (Num a) = Num (cos a)"
| "Math_cos _ = NaN"

fun Math_max :: "jsnum \<Rightarrow> jsnum \<Rightarrow> jsnum" where
  "Math_max NaN _ = NaN"
| "Math_max _ NaN = NaN"
| "Math_max x y = (if x < y then y else x)"

definition Math_PI :: jsnum where
  "Math_PI = Num pi"

text \<open>\<open>Number.isFinite\<close>: neither NaN nor an infinity.\<close>

fun isFinite :: "jsnum \<Rightarrow> bool" where
  "isFinite (Num a) = True"
| "isFinite _ = False"

text \<open>\<open>x || 0\<close> on a number: NaN and 0 are the falsy numbers.\<close>

definition or_zero :: "jsnum \<Rightarrow> jsnum" where
  "or_zero x = (if x = NaN \<or> x = Num 0 then Num 0 else x)"

section \<open>Analytic pricer\<close>

record BlackScholesResult =
  callPrice :: jsnum
  putPrice :: jsnum
  delta :: jsnum
  gamma :: jsnum
  theta :: jsnum
  vega :: jsnum
  rho :: jsnum

definition normalCDF :: "jsnum \<Rightarrow> jsnum" where
  "normalCDF x =
     (let t = Num 1 / (Num 1 + Num 0.2316419 * \<bar>x\<bar>);
          d = Num 0.3989423 * Math_exp ((- x) * x / Num 2);
          prob = d * t * (Num 0.3193815 + t * (Num (-0.3565638) + t * (Num 1.781478
                   + t * (Num (-1.821256) + t * Num 1.330274))))
      in if Num 0 < x then Num 1 - prob else prob)"

definition normalPDF :: "jsnum \<Rightarrow> jsnum" where
  "normalPDF x = Math_exp (Num (-0.5) * x * x) / Math_sqrt (Num 2 * Math_PI)"

definition calculateBlackScholes ::
  "jsnum \<Rightarrow> jsnum \<Rightarrow> jsnum \<Rightarrow> jsnum \<Rightarrow> jsnum \<Rightarrow> BlackScholesResult" where
  "calculateBlackScholes S K T r sigma =
     (let d1 = (Math_log (S / K) + (r + Num 0.5 * sigma * sigma) * T) / (sigma * Math_sqrt T);
          d2 = d1 - sigma * Math_sqrt T;
          Nd1 = normalCDF d1;
          Nd2 = normalCDF d2;
          Nmd1 = normalCDF (- d1);
          Nmd2 = normalCDF (- d2);
          nd1 = normalPDF d1;
          callPrice = S * Nd1 - K * Math_exp ((- r) * T) * Nd2;
          putPrice = K * Math_exp ((- r) * T) * Nmd2 - S * Nmd1;
          delta = Nd1;
          gamma = nd1 / (S * sigma * Math_sqrt T);
          theta = (- (S * nd1 * sigma)) / (Num 2 * Math_sqrt T) - r * K * Math_exp ((- r) * T) * Nd2;
          vega = S * nd1 * Math_sqrt T;
          rho = K * T * Math_exp ((- r) * T) * Nd2
      in \<lparr> callPrice = callPrice, putPrice = putPrice, delta = delta, gamma = gamma,
           theta = theta / Num 365, vega = vega / Num 100, rho = rho / Num 100 \<rparr>)"

text \<open>
  The pricer has no \<open>throw\<close> statement, and neither arithmetic on numbers nor a function of
  \<open>Math\<close> throws: a call always completes normally. As a fallible operation with the
  single error kind of the specification, its outcome is therefore always \<open>Inr\<close>.
\<close>

datatype error = InvalidParameter

definition priceOption ::
  "jsnum \<Rightarrow> jsnum \<Rightarrow> jsnum \<Rightarrow> jsnum \<Rightarrow> jsnum \<Rightarrow> error + BlackScholesResult" where
  "priceOption S K T r sigma = Inr (calculateBlackScholes S K T r sigma)"

subsection \<open>Values of the pricer on finite arguments\<close>

text \<open>
  Real-valued counterparts of \<open>normalCDF\<close> and of the intermediate quantities \<open>d1\<close>
  and \<open>d2\<close> of \<open>calculateBlackScholes\<close>; lemmas \<open>normalCDF_Num\<close> and
  \<open>valid_prices\<close> below show that the program computes exactly these on finite, valid
  arguments.
\<close>

definition cdf_prob :: "real \<Rightarrow> real" where
  "cdf_prob x =
     (let t = 1 / (1 + 0.2316419 * \<bar>x\<bar>);
          d = 0.3989423 * exp ((- x) * x / 2)
      in d * t * (0.3193815 + t * (-0.3565638 + t * (1.781478
                   + t * (-1.821256 + t * 1.330274)))))"

definition cdf_value :: "real \<Rightarrow> real" where
  "cdf_value x = (if 0 < x then 1 - cdf_prob x else cdf_prob x)"

definition cdf_poly :: "real \<Rightarrow> real" where
  "cdf_poly t = 0.3193815 + t * (-0.3565638 + t * (1.781478 + t * (-1.821256 + t * 1.330274)))"

definition d1_value :: "real \<Rightarrow> real \<Rightarrow> real \<Rightarrow> real \<Rightarrow> real \<Rightarrow> real" where
  "d1_value S K T r sigma = (ln (S / K) + (r + 0.5 * sigma * sigma) * T) / (sigma * sqrt T)"

definition d2_value :: "real \<Rightarrow> real \<Rightarrow> real \<Rightarrow> real \<Rightarrow> real \<Rightarrow> real" where
  "d2_value S K T r sigma = d1_value S K T r sigma - sigma * sqrt T"

subsection \<open>Ranges of the double computation\<close>

text \<open>
  The model computes with exact reals on finite numbers. Statements that are to hold of
  the program's double arithmetic as well are made for arguments in a range on which
  the program's divisors neither underflow to zero nor overflow and no operation yields
  NaN, and with tolerances that exceed the rounding of the operations involved.
\<close>

definition working_range :: "real \<Rightarrow> bool" where
  "working_range x = (1 / 10 ^ 100 \<le> x \<and> x \<le> 10 ^ 100)"

section \<open>Rebalancing allocator\<close>

text \<open>
  The field \<open>id\<close> of an asset is named \<open>asset_id\<close> here, and the field \<open>delta\<close> of an
  action \<open>delta_value\<close> (the pricer's result has a field \<open>delta\<close> too). An action is the
  asset's own fields spread into a new object, with three more fields.
\<close>

record Asset =
  asset_id :: string
  name :: string
  currentValue :: jsnum
  targetAllocation :: jsnum

datatype Action = BUY | SELL | HOLD

record RebalanceAction = Asset +
  targetValue :: jsnum
  delta_value :: jsnum
  action :: Action

record Calculations =
  totalValue :: jsnum
  totalAllocation :: jsnum
  isValid :: bool
  actions :: "RebalanceAction list"
  actionableItems :: "RebalanceAction list"
  currentData :: "(string \<times> jsnum) list"
  targetData :: "(string \<times> jsnum) list"

definition rebalance_action :: "jsnum \<Rightarrow> Asset \<Rightarrow> RebalanceAction" where
  "rebalance_action total_value asset =
     (let targetValue = (total_value * or_zero (targetAllocation asset)) / Num 100;
          delta = targetValue - or_zero (currentValue asset)
      in \<lparr> asset_id = asset_id asset, name = name asset,
           currentValue = currentValue asset, targetAllocation = targetAllocation asset,
           targetValue = targetValue, delta_value = delta,
           action = (if Num 0.01 < delta then BUY
                     else if delta < Num (-0.01) then SELL else HOLD) \<rparr>)"

definition display_name :: "string \<Rightarrow> string" where
  "display_name n = (if n = [] then ''Unnamed'' else n)"

definition calculations :: "Asset list \<Rightarrow> Calculations" where
  "calculations assets =
     (let totalValue = foldl (\<lambda>sum a. sum + or_zero (currentValue a)) (Num 0) assets;
          totalAllocation = foldl (\<lambda>sum a. sum + or_zero (targetAllocation a)) (Num 0) assets;
          isValid = (\<bar>totalAllocation - Num 100\<bar> < Num 0.01);
          actions = map (rebalance_action totalValue) assets;
          actionableItems = filter (\<lambda>a. action a \<noteq> HOLD) actions;
          currentData = map (\<lambda>a. (display_name (name a), currentValue a))
                          (filter (\<lambda>a. Num 0 < currentValue a) assets);
          targetData = map (\<lambda>a. (display_name (name a),
                                     (totalValue * targetAllocation a) / Num 100))
                          (filter (\<lambda>a. Num 0 < targetAllocation a \<and> Num 0 < totalValue) assets)
      in \<lparr> totalValue = totalValue, totalAllocation = totalAllocation, isValid = isValid,
           actions = actions, actionableItems = actionableItems,
           currentData = currentData, targetData = targetData \<rparr>)"

text \<open>
  Like the pricer, \<open>calculations\<close> contains no \<open>throw\<close> and no guard: as a fallible
  operation its outcome is always \<open>Inr\<close>.
\<close>

definition rebalancePortfolio :: "Asset list \<Rightarrow> error + Calculations" where
  "rebalancePortfolio assets = Inr (calculations assets)"

subsection \<open>Sums and finite values\<close>

text \<open>
  The sum of an array of numbers, added from left to right starting at 0 as \<open>reduce\<close>
  does, and the real value of a finite number.
\<close>

definition js_sum :: "jsnum list \<Rightarrow> jsnum" where
  "js_sum xs = foldl (+) (Num 0) xs"

fun real_of :: "jsnum \<Rightarrow> real" where
  "real_of (Num a) = a"
| "real_of _ = 0"

subsection \<open>Example portfolios\<close>

text \<open>
  The portfolio the application starts with, a variant whose allocations sum to 90, a
  portfolio with a negative current value, one with NaN fields and one with an
  infinite current value whose allocations sum to 90.
\<close>

definition default_assets :: "Asset list" where
  "default_assets =
     [\<lparr> asset_id = ''1'', name = ''US Stocks'', currentValue = Num 50000, targetAllocation = Num 40 \<rparr>,
      \<lparr> asset_id = ''2'', name = ''Bonds'', currentValue = Num 30000, targetAllocation = Num 30 \<rparr>,
      \<lparr> asset_id = ''3'', name = ''International'', currentValue = Num 20000, targetAllocation = Num 30 \<rparr>]"


definition overdrawn_assets :: "Asset list" where
  "overdrawn_assets =
     [\<lparr> asset_id = ''1'', name = ''Margin'', currentValue = Num (- 50), targetAllocation = Num 100 \<rparr>]"

definition nan_assets :: "Asset list" where
  "nan_assets =
     [\<lparr> asset_id = ''1'', name = ''Cash'', currentValue = NaN, targetAllocation = Num 50 \<rparr>,
      \<lparr> asset_id = ''2'', name = ''Bonds'', currentValue = Num 100, targetAllocation = NaN \<rparr>]"



section \<open>Stochastic simulator\<close>

subsection \<open>Gaussian sampling\<close>

text \<open>
  \<open>Math.random\<close> is the only source of randomness. The model takes the sequence of its
  future results as an argument, a stream of reals, and returns what is left of it.
  Each of the two loops \<open>while (u === 0) u = Math.random()\<close> starts from \<open>u = 0\<close>, so it
  draws at least once and stops at the first non-zero draw; it runs forever on a
  stream of zeros, which is the value \<open>None\<close>.
\<close>

partial_function (option) draw_nonzero :: "real stream \<Rightarrow> (real \<times> real stream) option" where
  "draw_nonzero s = (if shd s = 0 then draw_nonzero (stl s) else Some (shd s, stl s))"

definition generateGaussianRandom :: "real stream \<Rightarrow> (jsnum \<times> real stream) option" where
  "generateGaussianRandom s =
     (case draw_nonzero s of
        None \<Rightarrow> None
      | Some (u1, s1) \<Rightarrow>
          (case draw_nonzero s1 of
             None \<Rightarrow> None
           | Some (u2, s2) \<Rightarrow>
               Some (Math_sqrt (Num (-2.0) * Math_log (Num u1))
                       * Math_cos (Num 2.0 * Math_PI * Num u2), s2)))"

subsection \<open>Path generation\<close>

text \<open>
  The loop \<open>for (i = 1; i <= steps; i++)\<close> of \<open>simulateGBMPath\<close>, with the number of
  iterations still to run as its counter. The array is preallocated in the source and
  filled from index 0 upwards; the model holds the filled prefix, so \<open>path[i - 1]\<close> is its
  last element and the assignment to \<open>path[i]\<close> appends.
\<close>

fun gbm_loop ::
  "jsnum \<Rightarrow> jsnum \<Rightarrow> jsnum \<Rightarrow> nat \<Rightarrow> jsnum list \<Rightarrow> real stream
     \<Rightarrow> (jsnum list \<times> real stream) option" where
  "gbm_loop r sigma dt 0 path s = Some (path, s)"
| "gbm_loop r sigma dt (Suc n) path s =
     (case generateGaussianRandom s of
        None \<Rightarrow> None
      | Some (Z, s') \<Rightarrow>
          (let drift = (r - Num 0.5 * sigma * sigma) * dt;
               diffusion = sigma * Math_sqrt dt * Z
           in gbm_loop r sigma dt n (path @ [last path * Math_exp (drift + diffusion)]) s'))"

definition simulateGBMPath ::
  "jsnum \<Rightarrow> jsnum \<Rightarrow> jsnum \<Rightarrow> jsnum \<Rightarrow> nat \<Rightarrow> real stream
     \<Rightarrow> (jsnum list \<times> real stream) option" where
  "simulateGBMPath S0 r sigma T steps s =
     (let dt = T / Num (real steps) in gbm_loop r sigma dt steps [S0] s)"

subsection \<open>Monte Carlo run\<close>

text \<open>
  The loop \<open>for (i = 0; i < iterations; i += step)\<close> that selects the paths to draw, with
  \<open>step = Math.max(1, Math.floor(iterations / 20))\<close>. It runs after the main loop, when
  the array of all paths holds \<open>iterations\<close> paths.
\<close>

function visual_loop ::
  "jsnum list list \<Rightarrow> nat \<Rightarrow> nat \<Rightarrow> jsnum list list \<Rightarrow> jsnum list list" where
  "visual_loop paths iterations i visualPaths =
     (if i < iterations
      then visual_loop paths iterations (i + max 1 (iterations div 20))
             (if length visualPaths < 20 then visualPaths @ [paths ! i] else visualPaths)
      else visualPaths)"
  by pat_completeness auto
termination
  by (relation "measure (\<lambda>(paths, iterations, i, visualPaths). iterations - i)") auto

declare visual_loop.simps [simp del]

text \<open>
  The fields of \<open>mcParams\<close> carry the prefix \<open>mc_\<close>. The iteration and step counts are
  natural numbers, so \<open>Math.floor(iterations / 20)\<close> is \<open>iterations div 20\<close> and
  \<open>Math.floor(iterations * 0.05)\<close> is the floor of the exact product. The result of a run
  is what the source passes to \<open>setMcResults\<close>.
\<close>

datatype OptionType = Call | Put

record mcParams =
  mc_S0 :: jsnum
  mc_K :: jsnum
  mc_T :: jsnum
  mc_r :: jsnum
  mc_sigma :: jsnum
  mc_iterations :: nat
  mc_steps :: nat
  mc_optionType :: OptionType

record mcResults =
  optionPrice :: jsnum
  standardError :: jsnum
  inTheMoneyProbability :: jsnum
  valueAtRisk :: jsnum
  visualPaths :: "jsnum list list"

text \<open>The variables that the main loop updates.\<close>

record mcState =
  allPaths :: "jsnum list list"
  payoffs :: "jsnum list"
  sumPayoff :: jsnum
  sumPayoffSquared :: jsnum
  inTheMoneyCount :: nat

definition mc_initial :: mcState where
  "mc_initial = \<lparr> allPaths = [], payoffs = [], sumPayoff = Num 0, sumPayoffSquared = Num 0,
                   inTheMoneyCount = 0 \<rparr>"

text \<open>
  The terminal payoff of a path and its discounted value, as the loop body computes
  them from \<open>ST = path[path.length - 1]\<close>.
\<close>

definition path_payoff :: "mcParams \<Rightarrow> jsnum list \<Rightarrow> jsnum" where
  "path_payoff p path =
     (let ST = last path
      in if mc_optionType p = Call then Math_max (ST - mc_K p) (Num 0)
         else Math_max (mc_K p - ST) (Num 0))"

definition discounted_payoff :: "mcParams \<Rightarrow> jsnum list \<Rightarrow> jsnum" where
  "discounted_payoff p path = path_payoff p path * Math_exp ((- mc_r p) * mc_T p)"

definition mc_record :: "mcParams \<Rightarrow> mcState \<Rightarrow> jsnum list \<Rightarrow> mcState" where
  "mc_record p st path =
     (let payoff = path_payoff p path;
          discountedPayoff = discounted_payoff p path
      in \<lparr> allPaths = allPaths st @ [path],
           payoffs = payoffs st @ [discountedPayoff],
           sumPayoff = sumPayoff st + discountedPayoff,
           sumPayoffSquared = sumPayoffSquared st + discountedPayoff * discountedPayoff,
           inTheMoneyCount = (if Num 0 < payoff then inTheMoneyCount st + 1
                              else inTheMoneyCount st) \<rparr>)"

fun mc_loop ::
  "mcParams \<Rightarrow> nat \<Rightarrow> mcState \<Rightarrow> real stream \<Rightarrow> (mcState \<times> real stream) option" where
  "mc_loop p 0 st s = Some (st, s)"
| "mc_loop p (Suc n) st s =
     (case simulateGBMPath (mc_S0 p) (mc_r p) (mc_sigma p) (mc_T p) (mc_steps p) s of
        None \<Rightarrow> None
      | Some (path, s') \<Rightarrow> mc_loop p n (mc_record p st path) s')"

text \<open>
  \<open>payoffs.sort((a, b) => a - b)\<close>: an insertion sort by the comparator. On an array
  without NaN every sorting algorithm gives the same, ascending result; with NaN the
  comparator is inconsistent and the order is left to the implementation.
\<close>

fun insert_by_difference :: "jsnum \<Rightarrow> jsnum list \<Rightarrow> jsnum list" where
  "insert_by_difference x [] = [x]"
| "insert_by_difference x (y # ys) =
     (if Num 0 < x - y then y # insert_by_difference x ys else x # y # ys)"

definition sort_by_difference :: "jsnum list \<Rightarrow> jsnum list" where
  "sort_by_difference xs = foldr insert_by_difference xs []"

text \<open>Reading an array element: \<open>undefined\<close> beyond the end; arithmetic on it gives NaN.\<close>

definition element_at :: "'a list \<Rightarrow> nat \<Rightarrow> 'a option" where
  "element_at xs i = (if i < length xs then Some (xs ! i) else None)"

definition mc_results :: "mcParams \<Rightarrow> mcState \<Rightarrow> mcResults" where
  "mc_results p st =
     (let iterations = Num (real (mc_iterations p));
          optionPrice = sumPayoff st / iterations;
          variance = (sumPayoffSquared st / iterations) - (optionPrice * optionPrice);
          standardError = Math_sqrt (variance / iterations);
          inTheMoneyProbability = (Num (real (inTheMoneyCount st)) / iterations) * Num 100;
          sorted = sort_by_difference (payoffs st);
          index5th = nat \<lfloor>real (mc_iterations p) * 0.05\<rfloor>;
          valueAtRisk = (case element_at sorted index5th of
                           None \<Rightarrow> NaN
                         | Some payoff5th \<Rightarrow> optionPrice - payoff5th)
      in \<lparr> optionPrice = optionPrice, standardError = standardError,
           inTheMoneyProbability = inTheMoneyProbability, valueAtRisk = valueAtRisk,
           visualPaths = visual_loop (allPaths st) (mc_iterations p) 0 [] \<rparr>)"

definition runMonteCarloSimulation :: "mcParams \<Rightarrow> real stream \<Rightarrow> mcResults option" where
  "runMonteCarloSimulation p s =
     (case mc_loop p (mc_iterations p) mc_initial s of
        None \<Rightarrow> None
      | Some (st, s') \<Rightarrow> Some (mc_results p st))"

subsection \<open>The random source\<close>

text \<open>
  \<open>Math.random\<close> returns numbers in \<open>[0, 1)\<close>. A stream on which non-zero draws keep
  coming is one on which no resampling loop runs forever. A positive number is a finite
  one that compares greater than 0.
\<close>

definition draws_in_range :: "real stream \<Rightarrow> bool" where
  "draws_in_range s = (\<forall>u \<in> sset s. 0 \<le> u \<and> u < 1)"

definition nonzero_infinitely_often :: "real stream \<Rightarrow> bool" where
  "nonzero_infinitely_often s = (\<forall>n. \<exists>m\<ge>n. s !! m \<noteq> 0)"

definition positive_number :: "jsnum \<Rightarrow> bool" where
  "positive_number x = (isFinite x \<and> Num 0 < x)"

text \<open>
  The results of \<open>Math.random\<close> are doubles: a draw that is not 0 is at least the
  smallest positive double, \<open>2^-1074\<close>.
\<close>

definition draws_representable :: "real stream \<Rightarrow> bool" where
  "draws_representable s = (\<forall>u \<in> sset s. u = 0 \<or> 1 / 2 ^ 1074 \<le> u)"

subsection \<open>Valid configurations and an example run\<close>

text \<open>
  A configuration is valid when its spot price is finite and positive, its other
  parameters are finite, its horizon is not negative and it has at least one step.
  The example has two iterations of one step; its draws alternate between \<open>1/2\<close> and
  \<open>1/4\<close>.
\<close>

definition valid_config :: "mcParams \<Rightarrow> bool" where
  "valid_config p =
     (positive_number (mc_S0 p) \<and> isFinite (mc_K p) \<and> isFinite (mc_T p) \<and> Num 0 \<le> mc_T p
      \<and> isFinite (mc_r p) \<and> isFinite (mc_sigma p) \<and> 1 \<le> mc_steps p)"

definition example_params :: mcParams where
  "example_params =
     \<lparr> mc_S0 = Num 100, mc_K = Num 90, mc_T = Num 1, mc_r = Num 0.02, mc_sigma = Num 0.2,
       mc_iterations = 2, mc_steps = 1, mc_optionType = Call \<rparr>"

definition example_draws :: "real stream" where
  "example_draws = cycle [1/2, 1/4]"

section \<open>Properties of the analytic pricer\<close>

lemma cdf_denominator: "1 + 0.2316419 * \<bar>x::real\<bar> \<noteq> 0"
proof -
  have "0 \<le> 0.2316419 * \<bar>x\<bar>" by simp
  then show ?thesis by linarith
qed

lemma normalCDF_Num: "normalCDF (Num x) = Num (cdf_value x)"
  using cdf_denominator [of x]
  by (simp add: normalCDF_def cdf_value_def cdf_prob_def Let_def minus_jsnum_def)




lemma cdf_poly_bounds:
  assumes "0 \<le> t" "t \<le> 1"
  shows "0 \<le> cdf_poly t" and "cdf_poly t \<le> 2.11"
proof -
  define q where "q = 1.781478 + t * (-1.821256 + t * 1.330274)"
  have sq1: "0 \<le> (t - 0.7) * (t - 0.7)" by simp
  have q_low: "1.12 \<le> q"
    using sq1 assms unfolding q_def by (simp add: algebra_simps)
  have "t * (-1.821256 + t * 1.330274) \<le> 0"
    using assms by (intro mult_nonneg_nonpos) auto
  then have q_up: "q \<le> 1.781478" unfolding q_def by simp
  have tq_low: "1.12 * (t * t) \<le> t * t * q"
    using q_low mult_left_mono [of "1.12" q "t * t"] by (simp add: algebra_simps)
  have sq2: "0 \<le> (t - 0.16) * (t - 0.16)" by simp
  have poly_eq: "cdf_poly t = 0.3193815 - 0.3565638 * t + t * t * q"
    unfolding cdf_poly_def q_def by (simp add: algebra_simps)
  show "0 \<le> cdf_poly t"
    using tq_low sq2 assms unfolding poly_eq by (simp add: algebra_simps)
  have tq: "0 \<le> t * q" "t * q \<le> 1.781478"
  proof -
    show "0 \<le> t * q" using assms q_low by simp
    have "t * q \<le> 1 * q" using assms q_low by (intro mult_right_mono) auto
    then show "t * q \<le> 1.781478" using q_up by simp
  qed
  have "t * (t * q) \<le> 1 * (t * q)"
    using assms tq by (intro mult_right_mono) auto
  then show "cdf_poly t \<le> 2.11"
    using tq assms unfolding poly_eq by (simp add: algebra_simps)
qed

lemma cdf_prob_bounds: "0 \<le> cdf_prob x" "cdf_prob x \<le> 1"
proof -
  define t where "t = 1 / (1 + 0.2316419 * \<bar>x\<bar>)"
  define d where "d = 0.3989423 * exp ((- x) * x / 2)"
  have t: "0 \<le> t" "t \<le> 1" unfolding t_def by (auto simp: divide_simps)
  have "(- x) * x / 2 \<le> 0" by (simp add: mult_nonneg_nonneg)
  then have "exp ((- x) * x / 2) \<le> 1" by simp
  then have d: "0 \<le> d" "d \<le> 0.3989423" unfolding d_def by auto
  have eq: "cdf_prob x = d * t * cdf_poly t"
    unfolding cdf_prob_def cdf_poly_def t_def d_def Let_def by simp
  have "d * t \<le> d * 1" using d t by (intro mult_left_mono) auto
  then have dt: "0 \<le> d * t" "d * t \<le> 0.3989423"
    using d t by auto
  show "0 \<le> cdf_prob x"
    unfolding eq using dt cdf_poly_bounds [OF t] by simp
  have "d * t * cdf_poly t \<le> 0.3989423 * 2.11"
    using dt cdf_poly_bounds [OF t] by (intro mult_mono) auto
  then show "cdf_prob x \<le> 1" unfolding eq by simp
qed

lemma cdf_value_bounds: "0 \<le> cdf_value x" "cdf_value x \<le> 1"
  using cdf_prob_bounds [of x] by (auto simp: cdf_value_def)

lemma normalPDF_Num: "normalPDF (Num x) = Num (exp (- 0.5 * x * x) / sqrt (2 * pi))"
  by (simp add: normalPDF_def Math_PI_def)

lemma valid_prices:
  assumes "0 < S" "0 < K" "0 < T" "0 < sigma"
  shows "callPrice (calculateBlackScholes (Num S) (Num K) (Num T) (Num r) (Num sigma)) =
           Num (S * cdf_value (d1_value S K T r sigma)
                - K * exp (- r * T) * cdf_value (d2_value S K T r sigma))"
    and "putPrice (calculateBlackScholes (Num S) (Num K) (Num T) (Num r) (Num sigma)) =
           Num (K * exp (- r * T) * cdf_value (- d2_value S K T r sigma)
                - S * cdf_value (- d1_value S K T r sigma))"
    and "delta (calculateBlackScholes (Num S) (Num K) (Num T) (Num r) (Num sigma)) =
           Num (cdf_value (d1_value S K T r sigma))"
    and "gamma (calculateBlackScholes (Num S) (Num K) (Num T) (Num r) (Num sigma)) =
           Num (exp (- 0.5 * d1_value S K T r sigma * d1_value S K T r sigma) / sqrt (2 * pi)
                / (S * sigma * sqrt T))"
proof -
  have T0: "0 \<le> T" using assms by simp
  have nz: "sigma * sqrt T \<noteq> 0" "S * sigma * sqrt T \<noteq> 0" "0 < S / K"
    using assms by auto
  have d1: "(Math_log (Num S / Num K) + (Num r + Num 0.5 * Num sigma * Num sigma) * Num T)
              / (Num sigma * Math_sqrt (Num T)) = Num (d1_value S K T r sigma)"
    using assms T0 nz by (simp add: d1_value_def)
  have d2: "Num (d1_value S K T r sigma) - Num sigma * Math_sqrt (Num T)
              = Num (d2_value S K T r sigma)"
    using T0 by (simp add: d2_value_def minus_jsnum_def)
  show "callPrice (calculateBlackScholes (Num S) (Num K) (Num T) (Num r) (Num sigma)) =
           Num (S * cdf_value (d1_value S K T r sigma)
                - K * exp (- r * T) * cdf_value (d2_value S K T r sigma))"
    unfolding calculateBlackScholes_def Let_def d1 d2
    by (simp add: normalCDF_Num minus_jsnum_def)
  show "putPrice (calculateBlackScholes (Num S) (Num K) (Num T) (Num r) (Num sigma)) =
           Num (K * exp (- r * T) * cdf_value (- d2_value S K T r sigma)
                - S * cdf_value (- d1_value S K T r sigma))"
    unfolding calculateBlackScholes_def Let_def d1 d2
    by (simp add: normalCDF_Num minus_jsnum_def)
  show "delta (calculateBlackScholes (Num S) (Num K) (Num T) (Num r) (Num sigma)) =
           Num (cdf_value (d1_value S K T r sigma))"
    unfolding calculateBlackScholes_def Let_def d1 d2
    by (simp add: normalCDF_Num)
  show "gamma (calculateBlackScholes (Num S) (Num K) (Num T) (Num r) (Num sigma)) =
           Num (exp (- 0.5 * d1_value S K T r sigma * d1_value S K T r sigma) / sqrt (2 * pi)
                / (S * sigma * sqrt T))"
    unfolding calculateBlackScholes_def Let_def d1 d2
    using T0 nz assms by (simp add: normalPDF_Num)
qed



lemma working_range_positive: "working_range x \<Longrightarrow> 0 < x"
proof -
  assume "working_range x"
  then have "1 / 10 ^ 100 \<le> x" by (simp add: working_range_def)
  moreover have "(0::real) < 1 / 10 ^ 100" by simp
  ultimately show ?thesis by linarith
qed






text \<open>
  Claim C9, as amended. For every valid input whose \<open>S\<close>, \<open>K\<close>, \<open>T\<close> and \<open>sigma\<close> lie
  between \<open>1e-100\<close> and \<open>1e100\<close> and whose \<open>r\<close> is at most \<open>1e100\<close> in magnitude, the
  returned \<open>delta\<close> lies in \<open>[0, 1]\<close> and the returned \<open>gamma\<close> is at least \<open>0\<close> (the
  comparisons are those of JavaScript numbers, so neither value is NaN). Within these
  ranges neither of the divisors \<open>sigma * sqrt T\<close> and \<open>S * sigma * sqrt T\<close> is zero or
  infinite in the program's arithmetic.
\<close>

theorem delta_gamma_in_range:
  assumes "working_range S" "working_range K" "working_range T" "working_range sigma"
    and "\<bar>r\<bar> \<le> 10 ^ 100"
  shows "Num 0 \<le> delta (calculateBlackScholes (Num S) (Num K) (Num T) (Num r) (Num sigma))
       \<and> delta (calculateBlackScholes (Num S) (Num K) (Num T) (Num r) (Num sigma)) \<le> Num 1
       \<and> Num 0 \<le> gamma (calculateBlackScholes (Num S) (Num K) (Num T) (Num r) (Num sigma))"
proof -
  note pos = working_range_positive [OF assms(1)] working_range_positive [OF assms(2)]
    working_range_positive [OF assms(3)] working_range_positive [OF assms(4)]
  have "0 < S * sigma * sqrt T" using pos by simp
  then have "0 \<le> exp (- 0.5 * d1_value S K T r sigma * d1_value S K T r sigma) / sqrt (2 * pi)
                / (S * sigma * sqrt T)"
    by (intro divide_nonneg_nonneg) auto
  then show ?thesis
    using cdf_value_bounds [of "d1_value S K T r sigma"]
    by (simp add: valid_prices [OF pos])
qed

text \<open>
  The benchmark input lies within the ranges of claim C9.
\<close>

theorem delta_gamma_in_range_witness:
  "Num 0 \<le> delta (calculateBlackScholes (Num 100) (Num 100) (Num 1) (Num 0.05) (Num 0.2))
   \<and> delta (calculateBlackScholes (Num 100) (Num 100) (Num 1) (Num 0.05) (Num 0.2)) \<le> Num 1
   \<and> Num 0 \<le> gamma (calculateBlackScholes (Num 100) (Num 100) (Num 1) (Num 0.05) (Num 0.2))"
proof -
  have w: "working_range 100" "working_range 1" "working_range 0.2"
    by (simp_all add: working_range_def)
  have r: "\<bar>0.05 :: real\<bar> \<le> 10 ^ 100" by simp
  from delta_gamma_in_range [OF w(1) w(1) w(2) w(3) r] show ?thesis .
qed

text \<open>
  Claim C9 as stated fails: with \<open>S = K = 100\<close>, \<open>r = 0.05\<close>, \<open>sigma = 0.2\<close> and
  \<open>T = Infinity\<close>, all four of them greater than 0, the pricer divides infinity by
  infinity: \<open>d1\<close> is NaN, and so are the returned \<open>delta\<close> and \<open>gamma\<close>.
\<close>

theorem delta_gamma_counterexample:
  "Num 0 < Num 100 \<and> Num 0 < PosInf \<and> Num 0 < Num 0.2
   \<and> delta (calculateBlackScholes (Num 100) (Num 100) PosInf (Num 0.05) (Num 0.2)) = NaN
   \<and> gamma (calculateBlackScholes (Num 100) (Num 100) PosInf (Num 0.05) (Num 0.2)) = NaN
   \<and> \<not> Num 0 \<le> NaN"
  by (simp add: calculateBlackScholes_def Let_def normalCDF_def normalPDF_def)

lemma gamma_degenerate:
  assumes "0 < S" "0 < K" "0 \<le> T" "0 \<le> sigma" "T = 0 \<or> sigma = 0"
  shows "gamma (calculateBlackScholes (Num S) (Num K) (Num T) (Num r) (Num sigma)) = NaN"
proof -
  define n where "n = ln (S / K) + (r + 0.5 * sigma * sigma) * T"
  have z: "sigma * sqrt T = 0" "S * sigma * sqrt T = 0" using assms by auto
  have num: "Math_log (Num S / Num K) + (Num r + Num 0.5 * Num sigma * Num sigma) * Num T = Num n"
    using assms by (simp add: n_def)
  have den: "Num sigma * Math_sqrt (Num T) = Num 0" "Num S * Num sigma * Math_sqrt (Num T) = Num 0"
    using assms z by simp_all
  have pdf: "normalPDF (Num n / Num 0) = NaN \<or> normalPDF (Num n / Num 0) = Num 0"
    by (simp add: normalPDF_def Math_PI_def)
  have "gamma (calculateBlackScholes (Num S) (Num K) (Num T) (Num r) (Num sigma))
          = normalPDF (Num n / Num 0) / Num 0"
    unfolding calculateBlackScholes_def Let_def num den by simp
  then show ?thesis using pdf by auto
qed

text \<open>
  Claim C2, as amended. The pricer validates nothing and never fails: for every input it
  returns a result. When \<open>S\<close> and \<open>K\<close> are positive and \<open>T = 0\<close> or \<open>sigma = 0\<close>,
  the divisor \<open>S * sigma * sqrt T\<close> is zero and the returned \<open>gamma\<close> is NaN.
\<close>

theorem pricer_never_rejects:
  assumes "0 < s" "0 < k" "0 \<le> t" "0 \<le> sg" "t = 0 \<or> sg = 0"
  shows "(\<forall>S K T r sigma. \<exists>res. priceOption S K T r sigma = Inr res)
       \<and> (\<exists>res. priceOption (Num s) (Num k) (Num t) (Num r) (Num sg) = Inr res \<and> gamma res = NaN)"
  using gamma_degenerate [OF assms] by (simp add: priceOption_def)

text \<open>An input with \<open>sigma = 0\<close>: a result comes back, and its \<open>gamma\<close> is NaN.\<close>

theorem pricer_never_rejects_witness:
  "\<exists>res. priceOption (Num 100) (Num 90) (Num 1) (Num 0.05) (Num 0) = Inr res \<and> gamma res = NaN"
  using pricer_never_rejects [of 100 90 1 0 "0.05"] by simp

text \<open>
  Claim C2 as stated fails: with \<open>T = 0\<close> (and \<open>S = K = 100\<close>, \<open>r = 0.05\<close>,
  \<open>sigma = 0.2\<close>) the pricer does not fail with \<open>InvalidParameter\<close>; it returns a result
  whose \<open>delta\<close> and \<open>gamma\<close> are NaN.
\<close>

theorem pricer_rejects_counterexample:
  "priceOption (Num 100) (Num 100) (Num 0) (Num 0.05) (Num 0.2)
     = Inr (calculateBlackScholes (Num 100) (Num 100) (Num 0) (Num 0.05) (Num 0.2))
   \<and> delta (calculateBlackScholes (Num 100) (Num 100) (Num 0) (Num 0.05) (Num 0.2)) = NaN
   \<and> gamma (calculateBlackScholes (Num 100) (Num 100) (Num 0) (Num 0.05) (Num 0.2)) = NaN"
  by (simp add: priceOption_def calculateBlackScholes_def Let_def normalCDF_def normalPDF_def)

section \<open>Properties of the rebalancing allocator\<close>

lemma isFinite_Num: "isFinite x \<Longrightarrow> x = Num (real_of x)"
  by (cases x) simp_all

lemma or_zero_Num [simp]: "or_zero (Num a) = Num a"
  by (simp add: or_zero_def)

lemma or_zero_not_NaN: "x \<noteq> NaN \<Longrightarrow> or_zero x = x"
  by (auto simp: or_zero_def)



lemma calculations_actions:
  "actions (calculations assets) = map (rebalance_action (totalValue (calculations assets))) assets"
  by (simp add: calculations_def Let_def)

lemma foldl_or_zero_map:
  "foldl (\<lambda>sum a. sum + or_zero (f a)) z xs = foldl (+) z (map (\<lambda>a. or_zero (f a)) xs)"
  by (induction xs arbitrary: z) simp_all

text \<open>
  Claim C3, as amended. For every sequence of assets the rebalancer reads each
  \<open>currentValue\<close> and \<open>targetAllocation\<close> through \<open>x || 0\<close>, which is \<open>x\<close> itself unless \<open>x\<close>
  is NaN and 0 when it is. With the values so read, \<open>totalValue\<close> and
  \<open>totalAllocation\<close> are the sums of the two fields, \<open>isValid\<close> holds exactly when
  \<open>|totalAllocation - 100| < 0.01\<close>, and there is one action per asset, in input order,
  with \<open>targetValue = totalValue * targetAllocation / 100\<close>,
  \<open>delta = targetValue - currentValue\<close>, and \<open>BUY\<close> when \<open>delta > 0.01\<close>, \<open>SELL\<close> when
  \<open>delta < -0.01\<close>, \<open>HOLD\<close> otherwise.
\<close>

theorem rebalance_formulas_coalesced:
  "totalValue (calculations assets) = js_sum (map (\<lambda>a. or_zero (currentValue a)) assets)
   \<and> totalAllocation (calculations assets)
       = js_sum (map (\<lambda>a. or_zero (targetAllocation a)) assets)
   \<and> (isValid (calculations assets)
        \<longleftrightarrow> \<bar>totalAllocation (calculations assets) - Num 100\<bar> < Num 0.01)
   \<and> length (actions (calculations assets)) = length assets
   \<and> (\<forall>i < length assets.
        asset_id (actions (calculations assets) ! i) = asset_id (assets ! i)
      \<and> targetValue (actions (calculations assets) ! i)
          = totalValue (calculations assets) * or_zero (targetAllocation (assets ! i)) / Num 100
      \<and> delta_value (actions (calculations assets) ! i)
          = targetValue (actions (calculations assets) ! i) - or_zero (currentValue (assets ! i))
      \<and> action (actions (calculations assets) ! i)
          = (if Num 0.01 < delta_value (actions (calculations assets) ! i) then BUY
             else if delta_value (actions (calculations assets) ! i) < Num (- 0.01) then SELL
             else HOLD))
   \<and> (\<forall>x. x \<noteq> NaN \<longrightarrow> or_zero x = x)
   \<and> or_zero NaN = Num 0"
proof -
  have tv: "totalValue (calculations assets) = js_sum (map (\<lambda>a. or_zero (currentValue a)) assets)"
    by (simp add: calculations_def Let_def js_sum_def foldl_or_zero_map)
  have ta: "totalAllocation (calculations assets)
              = js_sum (map (\<lambda>a. or_zero (targetAllocation a)) assets)"
    by (simp add: calculations_def Let_def js_sum_def foldl_or_zero_map)
  have valid: "isValid (calculations assets)
            \<longleftrightarrow> \<bar>totalAllocation (calculations assets) - Num 100\<bar> < Num 0.01"
    by (simp add: calculations_def Let_def)
  have len: "length (actions (calculations assets)) = length assets"
    by (simp add: calculations_actions)
  have each: "\<forall>i < length assets.
        asset_id (actions (calculations assets) ! i) = asset_id (assets ! i)
      \<and> targetValue (actions (calculations assets) ! i)
          = totalValue (calculations assets) * or_zero (targetAllocation (assets ! i)) / Num 100
      \<and> delta_value (actions (calculations assets) ! i)
          = targetValue (actions (calculations assets) ! i) - or_zero (currentValue (assets ! i))
      \<and> action (actions (calculations assets) ! i)
          = (if Num 0.01 < delta_value (actions (calculations assets) ! i) then BUY
             else if delta_value (actions (calculations assets) ! i) < Num (- 0.01) then SELL
             else HOLD)"
    by (simp add: calculations_actions rebalance_action_def Let_def)
  have oz: "\<forall>x. x \<noteq> NaN \<longrightarrow> or_zero x = x" by (simp add: or_zero_not_NaN)
  have "or_zero NaN = Num 0" by (simp add: or_zero_def)
  then show ?thesis using tv ta valid len each oz by blast
qed

text \<open>
  The portfolio the application starts with.
\<close>

theorem rebalance_formulas_coalesced_witness:
  "totalValue (calculations default_assets) = Num 100000
   \<and> isValid (calculations default_assets)
   \<and> targetValue (actions (calculations default_assets) ! 0) = Num 40000
   \<and> delta_value (actions (calculations default_assets) ! 0) = Num (- 10000)
   \<and> action (actions (calculations default_assets) ! 0) = SELL
   \<and> or_zero (currentValue (default_assets ! 0)) = currentValue (default_assets ! 0)"
proof -
  have tv: "js_sum (map (\<lambda>a. or_zero (currentValue a)) default_assets) = Num 100000"
    by (simp add: default_assets_def js_sum_def)
  have ta: "js_sum (map (\<lambda>a. or_zero (targetAllocation a)) default_assets) = Num 100"
    by (simp add: default_assets_def js_sum_def)
  have a0: "default_assets ! 0 = \<lparr> asset_id = ''1'', name = ''US Stocks'',
              currentValue = Num 50000, targetAllocation = Num 40 \<rparr>"
    by (simp add: default_assets_def)
  have len: "0 < length default_assets" by (simp add: default_assets_def)
  from rebalance_formulas_coalesced [of default_assets] len
  show ?thesis
    by (simp add: tv ta a0 minus_jsnum_def)
qed

text \<open>
  Claim C3 as stated fails on a portfolio with NaN fields: the first asset has
  \<open>currentValue = NaN\<close> and the second \<open>targetAllocation = NaN\<close>. The sum of all
  \<open>currentValue\<close> is NaN but \<open>totalValue\<close> is 100; for the first asset
  \<open>targetValue - currentValue\<close> is NaN but \<open>delta\<close> is 50; for the second
  \<open>totalValue * targetAllocation / 100\<close> is NaN but \<open>targetValue\<close> is 0.
\<close>

theorem rebalance_formulas_counterexample:
  "totalValue (calculations nan_assets) = Num 100
   \<and> js_sum (map currentValue nan_assets) = NaN
   \<and> targetValue (actions (calculations nan_assets) ! 0) = Num 50
   \<and> delta_value (actions (calculations nan_assets) ! 0) = Num 50
   \<and> targetValue (actions (calculations nan_assets) ! 0) - currentValue (nan_assets ! 0) = NaN
   \<and> targetValue (actions (calculations nan_assets) ! 1) = Num 0
   \<and> totalValue (calculations nan_assets) * targetAllocation (nan_assets ! 1) / Num 100 = NaN"
  by (simp add: calculations_def rebalance_action_def Let_def nan_assets_def or_zero_def
      js_sum_def minus_jsnum_def)










text \<open>
  Claim C5, as amended. The rebalancer never fails, whatever the allocations and whatever
  the sign of the current values: it always returns a report, with one action per asset.
\<close>

theorem rebalancer_never_fails:
  "\<exists>c. rebalancePortfolio assets = Inr c \<and> length (actions c) = length assets"
  by (simp add: rebalancePortfolio_def calculations_actions)

text \<open>
  Claim C5 as stated fails: for a portfolio whose only asset has \<open>currentValue = -50\<close>
  the rebalancer does not fail with \<open>InvalidParameter\<close>; it returns a report with
  \<open>totalValue = -50\<close> and the action \<open>HOLD\<close>.
\<close>

theorem rebalancer_fails_counterexample:
  "currentValue (overdrawn_assets ! 0) < Num 0
   \<and> rebalancePortfolio overdrawn_assets = Inr (calculations overdrawn_assets)
   \<and> totalValue (calculations overdrawn_assets) = Num (- 50)
   \<and> map action (actions (calculations overdrawn_assets)) = [HOLD]"
  by (simp add: rebalancePortfolio_def calculations_def rebalance_action_def Let_def
      overdrawn_assets_def minus_jsnum_def)

section \<open>Properties of the Gaussian generator and of the path generator\<close>

lemma draws_in_range_sdrop: "draws_in_range s \<Longrightarrow> draws_in_range (sdrop k s)"
  by (auto simp: draws_in_range_def sset_range sdrop_snth)

lemma draws_in_range_snth: "draws_in_range s \<Longrightarrow> 0 \<le> s !! n \<and> s !! n < 1"
  by (simp add: draws_in_range_def)

lemma nonzero_infinitely_often_sdrop:
  assumes "nonzero_infinitely_often s"
  shows "nonzero_infinitely_often (sdrop k s)"
  unfolding nonzero_infinitely_often_def
proof
  fix n
  obtain m where "m \<ge> k + n" "s !! m \<noteq> 0"
    using assms unfolding nonzero_infinitely_often_def by blast
  then have "m - k \<ge> n \<and> sdrop k s !! (m - k) \<noteq> 0"
    by (simp add: sdrop_snth)
  then show "\<exists>m\<ge>n. sdrop k s !! m \<noteq> 0" by blast
qed

lemma draw_nonzero_at:
  "s !! n \<noteq> 0 \<Longrightarrow> (\<forall>k<n. s !! k = 0) \<Longrightarrow> draw_nonzero s = Some (s !! n, sdrop (Suc n) s)"
proof (induction n arbitrary: s)
  case 0
  then show ?case by (subst draw_nonzero.simps) simp
next
  case (Suc n)
  have hd: "shd s = 0" using Suc.prems(2) [rule_format, of 0] by simp
  have "stl s !! n \<noteq> 0" using Suc.prems(1) by simp
  moreover have "\<forall>k<n. stl s !! k = 0"
    using Suc.prems(2) by (metis Suc_less_eq snth.simps(2))
  ultimately have "draw_nonzero (stl s) = Some (stl s !! n, sdrop (Suc n) (stl s))"
    by (rule Suc.IH)
  then show ?case using hd by (subst draw_nonzero.simps) simp
qed

lemma draw_nonzero_returns:
  assumes "\<exists>n. s !! n \<noteq> 0"
  shows "\<exists>k. draw_nonzero s = Some (s !! k, sdrop (Suc k) s) \<and> s !! k \<noteq> 0"
proof -
  define k where "k = (LEAST n. s !! n \<noteq> 0)"
  have "s !! k \<noteq> 0" unfolding k_def using assms by (rule LeastI_ex)
  moreover have "\<forall>j<k. s !! j = 0"
    unfolding k_def using not_less_Least by blast
  ultimately show ?thesis using draw_nonzero_at by blast
qed

lemma draw_nonzero_Some_aux:
  assumes "draw_nonzero s = Some y"
  shows "\<exists>k. fst y = s !! k \<and> fst y \<noteq> 0 \<and> snd y = sdrop (Suc k) s \<and> (\<forall>j<k. s !! j = 0)"
proof (rule draw_nonzero.raw_induct
    [where P = "\<lambda>s y. \<exists>k. fst y = s !! k \<and> fst y \<noteq> 0 \<and> snd y = sdrop (Suc k) s
                          \<and> (\<forall>j<k. s !! j = 0)",
     OF _ assms])
  fix f :: "real stream \<Rightarrow> (real \<times> real stream) option" and s y
  assume IH: "\<And>s y. f s = Some y \<Longrightarrow>
                 \<exists>k. fst y = s !! k \<and> fst y \<noteq> 0 \<and> snd y = sdrop (Suc k) s
                     \<and> (\<forall>j<k. s !! j = 0)"
    and step: "(if shd s = 0 then f (stl s) else Some (shd s, stl s)) = Some y"
  show "\<exists>k. fst y = s !! k \<and> fst y \<noteq> 0 \<and> snd y = sdrop (Suc k) s \<and> (\<forall>j<k. s !! j = 0)"
  proof (cases "shd s = 0")
    case True
    then have "f (stl s) = Some y" using step by simp
    then obtain k where k: "fst y = stl s !! k" "fst y \<noteq> 0" "snd y = sdrop (Suc k) (stl s)"
      "\<forall>j<k. stl s !! j = 0"
      using IH by blast
    have "\<forall>j<Suc k. s !! j = 0"
    proof (intro allI impI)
      fix j assume "j < Suc k"
      then show "s !! j = 0" using True k(4) by (cases j) auto
    qed
    then have "fst y = s !! Suc k \<and> fst y \<noteq> 0 \<and> snd y = sdrop (Suc (Suc k)) s
                 \<and> (\<forall>j<Suc k. s !! j = 0)"
      using k by simp
    then show ?thesis by blast
  next
    case False
    then have "fst y = s !! 0 \<and> fst y \<noteq> 0 \<and> snd y = sdrop (Suc 0) s \<and> (\<forall>j<0. s !! j = 0)"
      using step by auto
    then show ?thesis by blast
  qed
qed

lemma draw_nonzero_Some:
  "draw_nonzero s = Some (u, s') \<Longrightarrow>
     \<exists>k. u = s !! k \<and> u \<noteq> 0 \<and> s' = sdrop (Suc k) s \<and> (\<forall>j<k. s !! j = 0)"
  using draw_nonzero_Some_aux [of s "(u, s')"] by simp

lemma gaussian_value:
  assumes "0 < u1" "u1 < 1"
  shows "Math_sqrt (Num (-2.0) * Math_log (Num u1)) * Math_cos (Num 2.0 * Math_PI * Num u2)
           = Num (sqrt (- 2 * ln u1) * cos (2 * pi * u2))"
proof -
  have "ln u1 < 0" using assms by simp
  then have "0 \<le> - 2 * ln u1" by simp
  then show ?thesis using assms by (simp add: Math_PI_def)
qed

lemma generateGaussianRandom_Some:
  assumes "draws_in_range s" "generateGaussianRandom s = Some (z, s')"
  shows "\<exists>i j. i < j \<and> 0 < s !! i \<and> s !! i < 1 \<and> s !! j \<noteq> 0
           \<and> (\<forall>k<j. k \<noteq> i \<longrightarrow> s !! k = 0)
           \<and> z = Num (sqrt (- 2 * ln (s !! i)) * cos (2 * pi * s !! j))
           \<and> s' = sdrop (Suc j) s"
proof -
  obtain u1 s1 where d1: "draw_nonzero s = Some (u1, s1)"
    using assms(2) by (auto simp: generateGaussianRandom_def split: option.splits)
  obtain u2 s2 where d2: "draw_nonzero s1 = Some (u2, s2)"
    using assms(2) d1 by (auto simp: generateGaussianRandom_def split: option.splits)
  obtain i where i: "u1 = s !! i" "u1 \<noteq> 0" "s1 = sdrop (Suc i) s" "\<forall>k<i. s !! k = 0"
    using draw_nonzero_Some [OF d1] by blast
  obtain m where m: "u2 = s1 !! m" "u2 \<noteq> 0" "s2 = sdrop (Suc m) s1" "\<forall>k<m. s1 !! k = 0"
    using draw_nonzero_Some [OF d2] by blast
  define j where "j = Suc i + m"
  have u1: "0 < u1" "u1 < 1"
    using draws_in_range_snth [OF assms(1), of i] i by auto
  have zj: "u2 = s !! j" "s2 = sdrop (Suc j) s"
    using m i by (simp_all add: j_def sdrop_snth add.commute)
  have zeros: "s !! k = 0" if "k < j" "k \<noteq> i" for k
  proof (cases "k < i")
    case True
    then show ?thesis using i(4) by simp
  next
    case False
    then have "k - Suc i < m" "k = Suc i + (k - Suc i)" using that by (auto simp: j_def)
    then show ?thesis using m(4) i(3) by (metis sdrop_snth)
  qed
  have "z = Num (sqrt (- 2 * ln u1) * cos (2 * pi * u2))" "s' = s2"
    using assms(2) d1 d2 gaussian_value [OF u1, of u2]
    by (simp_all add: generateGaussianRandom_def)
  then show ?thesis
    using u1 i m zj zeros by (intro exI [of _ i] exI [of _ j]) (auto simp: j_def)
qed

lemma generateGaussianRandom_returns:
  assumes "\<exists>i j. i < j \<and> s !! i \<noteq> 0 \<and> s !! j \<noteq> 0"
  shows "\<exists>z k. generateGaussianRandom s = Some (z, sdrop (Suc k) s)"
proof -
  obtain i j where ij: "i < j" "s !! i \<noteq> 0" "s !! j \<noteq> 0" using assms by blast
  obtain a where a: "draw_nonzero s = Some (s !! a, sdrop (Suc a) s)" "s !! a \<noteq> 0"
    "\<forall>k<a. s !! k = 0"
    using draw_nonzero_returns [of s] ij(2) draw_nonzero_Some by (metis (no_types, lifting))
  have "a \<le> i" using a(3) ij(2) by (meson not_le_imp_less)
  then have "sdrop (Suc a) s !! (j - Suc a) = s !! j"
    using ij(1) sdrop_snth [of "Suc a" s "j - Suc a"] by simp
  then have "\<exists>n. sdrop (Suc a) s !! n \<noteq> 0" using ij(3) by metis
  then obtain b where b: "draw_nonzero (sdrop (Suc a) s)
      = Some (sdrop (Suc a) s !! b, sdrop (Suc b) (sdrop (Suc a) s))"
    using draw_nonzero_returns by blast
  have eq: "sdrop (Suc b) (sdrop (Suc a) s) = sdrop (Suc (Suc a + b)) s" by simp
  have "\<exists>z. generateGaussianRandom s = Some (z, sdrop (Suc b) (sdrop (Suc a) s))"
    by (simp add: generateGaussianRandom_def a(1) b del: sdrop.simps)
  then show ?thesis unfolding eq by blast
qed

text \<open>
  Claim C7. On draws from \<open>[0, 1)\<close>, the Gaussian generator returns as soon as the
  stream holds two non-zero draws, and every sample it returns is finite: draws that are
  exactly 0 are skipped, the logarithm is applied to the first non-zero draw, which lies
  in \<open>(0, 1)\<close>, and the sample is \<open>sqrt (-2 * ln u1) * cos (2 * pi * u2)\<close> for the first
  two non-zero draws \<open>u1\<close> and \<open>u2\<close>.
\<close>

theorem gaussian_sample_finite:
  assumes "draws_in_range s"
  shows "((\<exists>i j. i < j \<and> s !! i \<noteq> 0 \<and> s !! j \<noteq> 0)
            \<longrightarrow> (\<exists>z s'. generateGaussianRandom s = Some (z, s')))
       \<and> (\<forall>z s'. generateGaussianRandom s = Some (z, s') \<longrightarrow>
            isFinite z
          \<and> (\<exists>i j. i < j \<and> 0 < s !! i \<and> s !! j \<noteq> 0
                \<and> (\<forall>k<j. k \<noteq> i \<longrightarrow> s !! k = 0)
                \<and> z = Num (sqrt (- 2 * ln (s !! i)) * cos (2 * pi * s !! j))
                \<and> s' = sdrop (Suc j) s))"
proof (intro conjI impI allI)
  assume "\<exists>i j. i < j \<and> s !! i \<noteq> 0 \<and> s !! j \<noteq> 0"
  then show "\<exists>z s'. generateGaussianRandom s = Some (z, s')"
    using generateGaussianRandom_returns by blast
next
  fix z s'
  assume r: "generateGaussianRandom s = Some (z, s')"
  from generateGaussianRandom_Some [OF assms r]
  show "isFinite z" by auto
  from generateGaussianRandom_Some [OF assms r]
  show "\<exists>i j. i < j \<and> 0 < s !! i \<and> s !! j \<noteq> 0
                \<and> (\<forall>k<j. k \<noteq> i \<longrightarrow> s !! k = 0)
                \<and> z = Num (sqrt (- 2 * ln (s !! i)) * cos (2 * pi * s !! j))
                \<and> s' = sdrop (Suc j) s"
    by blast
qed

text \<open>
  A stream whose first and third draws are 0: both are resampled, and the sample
  computed from the draws \<open>1/2\<close> and \<open>1/4\<close> is the finite number 0.
\<close>

theorem gaussian_sample_finite_witness:
  "draws_in_range (0 ## 1/2 ## 0 ## 1/4 ## sconst (1/2))
   \<and> (\<exists>z s'. generateGaussianRandom (0 ## 1/2 ## 0 ## 1/4 ## sconst (1/2)) = Some (z, s')
              \<and> isFinite z)
   \<and> generateGaussianRandom (0 ## 1/2 ## 0 ## 1/4 ## sconst (1/2)) = Some (Num 0, sconst (1/2))"
proof -
  let ?s = "0 ## 1/2 ## 0 ## 1/4 ## sconst (1/2 :: real)"
  have range: "draws_in_range ?s" by (simp add: draws_in_range_def)
  have "?s !! 1 \<noteq> 0 \<and> ?s !! 3 \<noteq> 0" by (simp add: numeral_3_eq_3)
  then have two: "\<exists>i j. i < j \<and> ?s !! i \<noteq> 0 \<and> ?s !! j \<noteq> 0"
    by (intro exI [of _ 1] exI [of _ 3]) simp
  have run: "generateGaussianRandom ?s = Some (Num 0, sconst (1/2))"
    by (simp add: generateGaussianRandom_def draw_nonzero.simps Math_PI_def)
  from gaussian_sample_finite [OF range] two
  have "\<exists>z s'. generateGaussianRandom ?s = Some (z, s') \<and> isFinite z" by blast
  then show ?thesis using range run by simp
qed

lemma nonzero_infinitely_often_two:
  assumes "nonzero_infinitely_often s"
  shows "\<exists>i j. i < j \<and> s !! i \<noteq> 0 \<and> s !! j \<noteq> 0"
proof -
  obtain i where i: "s !! i \<noteq> 0"
    using assms unfolding nonzero_infinitely_often_def by blast
  obtain j where j: "j \<ge> Suc i" "s !! j \<noteq> 0"
    using assms unfolding nonzero_infinitely_often_def by blast
  then show ?thesis using i by (intro exI [of _ i] exI [of _ j]) simp
qed

lemma gbm_loop_length:
  "gbm_loop r sigma dt n path s = Some (path', s') \<Longrightarrow>
     length path' = length path + n \<and> take (length path) path' = path"
proof (induction n arbitrary: path s)
  case 0
  then show ?case by simp
next
  case (Suc n)
  then obtain Z s1 where g: "generateGaussianRandom s = Some (Z, s1)"
    by (auto split: option.splits)
  let ?next = "path @ [last path * Math_exp ((r - Num 0.5 * sigma * sigma) * dt
                                               + sigma * Math_sqrt dt * Z)]"
  have "gbm_loop r sigma dt n ?next s1 = Some (path', s')"
    using Suc.prems g by (simp add: Let_def)
  from Suc.IH [OF this] have len: "length path' = length ?next + n"
    and tk: "take (length ?next) path' = ?next" by simp_all
  have "take (length path) path' = take (length path) (take (length ?next) path')"
    by (simp add: min_def)
  then have "take (length path) path' = path" unfolding tk by simp
  then show ?case using len by simp
qed

lemma gbm_loop_returns:
  "nonzero_infinitely_often s \<Longrightarrow>
     \<exists>path' k. gbm_loop r sigma dt n path s = Some (path', sdrop k s)"
proof (induction n arbitrary: path s)
  case 0
  have "gbm_loop r sigma dt 0 path s = Some (path, sdrop 0 s)" by simp
  then show ?case by blast
next
  case (Suc n)
  obtain Z k where g: "generateGaussianRandom s = Some (Z, sdrop (Suc k) s)"
    using generateGaussianRandom_returns [OF nonzero_infinitely_often_two [OF Suc.prems]]
    by blast
  let ?next = "path @ [last path * Math_exp ((r - Num 0.5 * sigma * sigma) * dt
                                               + sigma * Math_sqrt dt * Z)]"
  obtain path' m where "gbm_loop r sigma dt n ?next (sdrop (Suc k) s)
                          = Some (path', sdrop m (sdrop (Suc k) s))"
    using Suc.IH [OF nonzero_infinitely_often_sdrop [OF Suc.prems], of ?next "Suc k"] by blast
  then have "gbm_loop r sigma dt (Suc n) path s = Some (path', sdrop (Suc k + m) s)"
    using g by (simp add: Let_def del: sdrop.simps)
  then show ?case by blast
qed

lemma positive_number_iff: "positive_number x \<longleftrightarrow> (\<exists>a>0. x = Num a)"
  by (cases x) (simp_all add: positive_number_def)

lemma gbm_step_positive:
  assumes "0 \<le> d" "0 < a"
  shows "positive_number (Num a * Math_exp ((Num r - Num 0.5 * Num sigma * Num sigma) * Num d
                                             + Num sigma * Math_sqrt (Num d) * Num z))"
  using assms by (simp add: positive_number_iff minus_jsnum_def)

lemma gbm_loop_positive:
  assumes "0 \<le> d" "draws_in_range s" "path \<noteq> []" "\<forall>x \<in> set path. positive_number x"
    "gbm_loop (Num r) (Num sigma) (Num d) n path s = Some (path', s')"
  shows "\<forall>x \<in> set path'. positive_number x"
  using assms(2-5)
proof (induction n arbitrary: path s)
  case 0
  then show ?case by simp
next
  case (Suc n)
  obtain Z s1 where g: "generateGaussianRandom s = Some (Z, s1)"
    using Suc.prems(4) by (auto split: option.splits)
  obtain z j where z: "Z = Num z" "s1 = sdrop (Suc j) s"
    using generateGaussianRandom_Some [OF Suc.prems(1) g] by blast
  have "last path \<in> set path" using Suc.prems(2) by simp
  then have "positive_number (last path)" using Suc.prems(3) by simp
  then obtain a where a: "last path = Num a" "0 < a"
    unfolding positive_number_iff by auto
  let ?new = "last path * Math_exp ((Num r - Num 0.5 * Num sigma * Num sigma) * Num d
                                      + Num sigma * Math_sqrt (Num d) * Z)"
  have new: "positive_number ?new"
    unfolding a z by (rule gbm_step_positive [OF assms(1) a(2)])
  have loop: "gbm_loop (Num r) (Num sigma) (Num d) n (path @ [?new]) s1 = Some (path', s')"
    using Suc.prems(4) g by (simp add: Let_def)
  have range: "draws_in_range s1"
    unfolding z by (rule draws_in_range_sdrop [OF Suc.prems(1)])
  have nonempty: "path @ [?new] \<noteq> []" by simp
  have all: "\<forall>x \<in> set (path @ [?new]). positive_number x"
    using Suc.prems(3) new by simp
  show ?case by (rule Suc.IH [OF range nonempty all loop])
qed

lemma draws_representable_sdrop: "draws_representable s \<Longrightarrow> draws_representable (sdrop k s)"
  by (auto simp: draws_representable_def sset_range sdrop_snth)

lemma ln_inverse_power2: "ln (1 / 2 ^ n :: real) = - (real n * ln 2)"
  by (simp add: ln_div ln_realpow)

lemma gaussian_magnitude:
  assumes "1 / 2 ^ 1074 \<le> u" "u < 1"
  shows "\<bar>sqrt (- 2 * ln u) * cos v\<bar> \<le> 47"
proof -
  have p: "(0::real) < 1 / 2 ^ 1074" by (simp only: zero_less_divide_iff zero_less_power) simp
  have u: "0 < u" using p assms(1) by (rule less_le_trans)
  have "ln (1 / 2 ^ 1074) \<le> ln u"
    using assms(1) by (simp only: ln_le_cancel_iff [OF p u])
  moreover have "ln (1 / 2 ^ 1074 :: real) = - (real 1074 * ln 2)"
    by (rule ln_inverse_power2)
  moreover have "ln (2::real) < 1" by (rule ln_2_less_1)
  ultimately have "- 2 * ln u \<le> 2148" by simp
  also have "\<dots> \<le> (47::real)\<^sup>2" by simp
  finally have le: "sqrt (- 2 * ln u) \<le> 47" by (intro real_le_lsqrt) simp_all
  have "ln u \<le> 0" using u assms(2) by simp
  then have nonneg: "0 \<le> sqrt (- 2 * ln u)" by simp
  have "\<bar>cos v\<bar> \<le> 1" by (rule abs_cos_le_one)
  with le have "sqrt (- 2 * ln u) * \<bar>cos v\<bar> \<le> 47 * 1"
    using nonneg by (intro mult_mono) simp_all
  moreover have "\<bar>sqrt (- 2 * ln u) * cos v\<bar> = sqrt (- 2 * ln u) * \<bar>cos v\<bar>"
    using nonneg by (simp only: abs_mult abs_of_nonneg)
  ultimately show ?thesis by simp
qed

lemma exponent_magnitude:
  assumes "0 \<le> d" "d \<le> 100" "\<bar>r\<bar> \<le> 1" "\<bar>sigma\<bar> \<le> 1" "\<bar>z\<bar> \<le> 47"
  shows "\<bar>(r - 0.5 * sigma * sigma) * d + sigma * sqrt d * z\<bar> \<le> (700::real)"
proof -
  have ss: "0 \<le> sigma * sigma" "sigma * sigma \<le> 1"
  proof -
    show "0 \<le> sigma * sigma" by simp
    have "\<bar>sigma\<bar> * \<bar>sigma\<bar> \<le> 1 * 1" using assms(4) by (intro mult_mono) simp_all
    then show "sigma * sigma \<le> 1" by (simp add: abs_mult_self_eq)
  qed
  define q where "q = sigma * sigma"
  have "r - 0.5 * sigma * sigma = r - q / 2" by (simp add: q_def)
  moreover have "\<bar>r - q / 2\<bar> \<le> 3 / 2" using assms(3) ss unfolding q_def [symmetric] by linarith
  ultimately have "\<bar>r - 0.5 * sigma * sigma\<bar> \<le> 3 / 2" by simp
  then have "\<bar>r - 0.5 * sigma * sigma\<bar> * \<bar>d\<bar> \<le> 3 / 2 * 100"
    using assms(1,2) by (intro mult_mono) simp_all
  then have drift: "\<bar>(r - 0.5 * sigma * sigma) * d\<bar> \<le> 150" by (simp add: abs_mult)
  have "sqrt d \<le> 10"
    using assms(2) by (intro real_le_lsqrt) simp_all
  then have "\<bar>sigma\<bar> * sqrt d \<le> 1 * 10"
    using assms(1,4) by (intro mult_mono) simp_all
  then have a: "\<bar>sigma\<bar> * sqrt d \<le> 10" by simp
  have "(\<bar>sigma\<bar> * sqrt d) * \<bar>z\<bar> \<le> 10 * 47"
    using a assms(5) by (rule mult_mono) simp_all
  moreover have "\<bar>sigma * sqrt d * z\<bar> = (\<bar>sigma\<bar> * sqrt d) * \<bar>z\<bar>"
    using assms(1) by (simp add: abs_mult)
  ultimately have diffusion: "\<bar>sigma * sqrt d * z\<bar> \<le> 470" by simp
  show ?thesis using drift diffusion by linarith
qed

lemma gbm_loop_factors:
  assumes "0 \<le> d" "d \<le> 100" "\<bar>r\<bar> \<le> 1" "\<bar>sigma\<bar> \<le> 1"
  shows "draws_in_range s \<Longrightarrow> draws_representable s \<Longrightarrow> path \<noteq> [] \<Longrightarrow>
    gbm_loop (Num r) (Num sigma) (Num d) n path s = Some (path', s') \<Longrightarrow>
    \<forall>i. length path \<le> Suc i \<and> Suc i < length path'
           \<longrightarrow> (\<exists>e. \<bar>e\<bar> \<le> 700 \<and> path' ! Suc i = path' ! i * Math_exp (Num e))"
proof (induction n arbitrary: path s)
  case 0
  then have "path' = path" by simp
  then show ?case by auto
next
  case (Suc n)
  obtain Z s1 where g: "generateGaussianRandom s = Some (Z, s1)"
    using Suc.prems(4) by (auto split: option.splits)
  obtain i0 j where ij: "0 < s !! i0" "s !! i0 < 1"
    "Z = Num (sqrt (- 2 * ln (s !! i0)) * cos (2 * pi * s !! j))" "s1 = sdrop (Suc j) s"
    using generateGaussianRandom_Some [OF Suc.prems(1) g] by blast
  define z where "z = sqrt (- 2 * ln (s !! i0)) * cos (2 * pi * s !! j)"
  have "s !! i0 = 0 \<or> 1 / 2 ^ 1074 \<le> s !! i0"
    using Suc.prems(2) by (simp add: draws_representable_def)
  then have "1 / 2 ^ 1074 \<le> s !! i0" using ij(1) by simp
  then have zb: "\<bar>z\<bar> \<le> 47" unfolding z_def using ij(2) by (rule gaussian_magnitude)
  have Z: "Z = Num z" using ij(3) by (simp add: z_def)
  define e0 where "e0 = (r - 0.5 * sigma * sigma) * d + sigma * sqrt d * z"
  have e0: "\<bar>e0\<bar> \<le> 700"
    unfolding e0_def by (rule exponent_magnitude [OF assms zb])
  have expo: "(Num r - Num 0.5 * Num sigma * Num sigma) * Num d
                + Num sigma * Math_sqrt (Num d) * Z = Num e0"
    using assms(1) unfolding Z e0_def by (simp add: minus_jsnum_def)
  let ?new = "last path * Math_exp (Num e0)"
  have loop: "gbm_loop (Num r) (Num sigma) (Num d) n (path @ [?new]) s1 = Some (path', s')"
    using Suc.prems(4) g expo by (simp add: Let_def)
  have range: "draws_in_range s1"
    unfolding ij(4) by (rule draws_in_range_sdrop [OF Suc.prems(1)])
  have repr: "draws_representable s1"
    unfolding ij(4) by (rule draws_representable_sdrop [OF Suc.prems(2)])
  have nonempty: "path @ [?new] \<noteq> []" by simp
  note IH = Suc.IH [OF range repr nonempty loop]
  from gbm_loop_length [OF loop]
  have len: "length path' = length path + 1 + n"
    and tk: "take (length path + 1) path' = path @ [?new]" by simp_all
  show ?case
  proof (intro allI impI)
    fix i
    assume i: "length path \<le> Suc i \<and> Suc i < length path'"
    show "\<exists>e. \<bar>e\<bar> \<le> 700 \<and> path' ! Suc i = path' ! i * Math_exp (Num e)"
    proof (cases "length path = Suc i")
      case False
      then have "length (path @ [?new]) \<le> Suc i \<and> Suc i < length path'" using i by simp
      then show ?thesis using IH by blast
    next
      case True
      have "path' ! Suc i = take (length path + 1) path' ! Suc i" using True by simp
      also have "\<dots> = ?new" unfolding tk using True by (simp add: nth_append)
      finally have a: "path' ! Suc i = ?new" .
      have "path' ! i = take (length path + 1) path' ! i" using True by simp
      also have "\<dots> = path ! i" unfolding tk using True by (simp add: nth_append)
      also have "\<dots> = last path"
        using True Suc.prems(3) by (simp add: last_conv_nth)
      finally have b: "path' ! i = last path" .
      show ?thesis unfolding a b using e0 by blast
    qed
  qed
qed

text \<open>
  Claim C10, as amended. For every \<open>S0 > 0\<close>, \<open>steps \<ge> 1\<close> (with \<open>steps + 1\<close> a valid array
  length, below \<open>2^32\<close>), \<open>0 \<le> T \<le> 100\<close>, \<open>|r| \<le> 1\<close> and \<open>|sigma| \<le> 1\<close>, on draws from
  \<open>[0, 1)\<close> that are 0 or at least \<open>2^-1074\<close>: the path generator returns whenever
  non-zero draws keep coming, and every path it returns has
  exactly \<open>steps + 1\<close> points, begins with \<open>S0\<close>, has no negative and no NaN point, and
  each point after the first is the previous point times \<open>Math.exp(e)\<close> for an exponent
  \<open>e\<close> with \<open>|e| \<le> 700\<close>, where \<open>Math.exp\<close> is finite and greater than zero.
\<close>

theorem gbm_path_nonnegative:
  assumes "0 < S0" "0 \<le> T" "T \<le> 100" "\<bar>r\<bar> \<le> 1" "\<bar>sigma\<bar> \<le> 1" "1 \<le> steps"
    and "draws_in_range s" "draws_representable s" "steps + 1 < 2 ^ 32"
  shows "(nonzero_infinitely_often s \<longrightarrow>
            (\<exists>path s'. simulateGBMPath (Num S0) (Num r) (Num sigma) (Num T) steps s
                          = Some (path, s')))
       \<and> (\<forall>path s'. simulateGBMPath (Num S0) (Num r) (Num sigma) (Num T) steps s
                        = Some (path, s') \<longrightarrow>
            length path = steps + 1 \<and> path ! 0 = Num S0
          \<and> (\<forall>x \<in> set path. Num 0 \<le> x)
          \<and> (\<forall>i < steps. \<exists>e. \<bar>e\<bar> \<le> 700 \<and> path ! Suc i = path ! i * Math_exp (Num e)))"
proof -
  define d where "d = T / real steps"
  have d: "0 \<le> d" using assms(2) by (simp add: d_def)
  have "T / real steps \<le> T / 1"
    using assms(2,6) by (intro divide_left_mono) simp_all
  then have d100: "d \<le> 100" using assms(3) by (simp add: d_def)
  have sim: "simulateGBMPath (Num S0) (Num r) (Num sigma) (Num T) steps s
               = gbm_loop (Num r) (Num sigma) (Num d) steps [Num S0] s"
    using assms(6) by (simp add: simulateGBMPath_def d_def)
  have nonempty: "[Num S0] \<noteq> []" by simp
  have shape: "length path = steps + 1 \<and> path ! 0 = Num S0
          \<and> (\<forall>x \<in> set path. Num 0 \<le> x)
          \<and> (\<forall>i < steps. \<exists>e. \<bar>e\<bar> \<le> 700 \<and> path ! Suc i = path ! i * Math_exp (Num e))"
    if run: "gbm_loop (Num r) (Num sigma) (Num d) steps [Num S0] s = Some (path, s')"
    for path s'
  proof -
    from gbm_loop_length [OF run]
    have len: "length path = steps + 1" and tk: "take 1 path = [Num S0]" by simp_all
    have "path ! 0 = take 1 path ! 0" by simp
    then have first: "path ! 0 = Num S0" unfolding tk by simp
    have start: "\<forall>x \<in> set [Num S0]. positive_number x"
      using assms(1) by (simp add: positive_number_def)
    have pos: "\<forall>x \<in> set path. positive_number x"
      by (rule gbm_loop_positive [OF d assms(7) nonempty start run])
    have nonneg: "\<forall>x \<in> set path. Num 0 \<le> x"
    proof
      fix x assume "x \<in> set path"
      then obtain a where "x = Num a" "0 < a" using pos positive_number_iff by blast
      then show "Num 0 \<le> x" by simp
    qed
    have factors: "\<forall>i < steps. \<exists>e. \<bar>e\<bar> \<le> 700 \<and> path ! Suc i = path ! i * Math_exp (Num e)"
      using gbm_loop_factors [OF d d100 assms(4,5,7,8) nonempty run] len by simp
    show ?thesis using len first nonneg factors by simp
  qed
  have returns: "\<exists>path s'. gbm_loop (Num r) (Num sigma) (Num d) steps [Num S0] s = Some (path, s')"
    if "nonzero_infinitely_often s"
    using gbm_loop_returns [OF that, of "Num r" "Num sigma" "Num d" steps "[Num S0]"] by blast
  show ?thesis
    unfolding sim
  proof (intro conjI impI allI)
    assume "nonzero_infinitely_often s"
    then show "\<exists>path s'. gbm_loop (Num r) (Num sigma) (Num d) steps [Num S0] s = Some (path, s')"
      by (rule returns)
  next
    fix path s'
    assume run: "gbm_loop (Num r) (Num sigma) (Num d) steps [Num S0] s = Some (path, s')"
    show "length path = steps + 1" using shape [OF run] by simp
    show "path ! 0 = Num S0" using shape [OF run] by simp
    show "\<forall>x \<in> set path. Num 0 \<le> x" using shape [OF run] by simp
  next
    fix path s' i
    assume run: "gbm_loop (Num r) (Num sigma) (Num d) steps [Num S0] s = Some (path, s')"
      and "i < steps"
    then show "\<exists>e. \<bar>e\<bar> \<le> 700 \<and> path ! Suc i = path ! i * Math_exp (Num e)"
      using shape [OF run] by simp
  qed
qed

text \<open>
  Claim C10 as stated fails: with \<open>S0 = 100 > 0\<close> and \<open>steps = 1\<close> but \<open>T = -1\<close>, the
  step size \<open>dt\<close> is negative, \<open>Math.sqrt(dt)\<close> is NaN, and the second point of the path
  is NaN, which is not greater than 0.
\<close>

theorem gbm_path_shape_counterexample:
  "simulateGBMPath (Num 100) (Num 0.05) (Num 0.2) (Num (- 1)) 1 (sconst (1/2))
     = Some ([Num 100, NaN], sconst (1/2))
   \<and> \<not> Num 0 < NaN"
  by (simp add: simulateGBMPath_def generateGaussianRandom_def draw_nonzero.simps Let_def
      minus_jsnum_def)

lemma nonzero_infinitely_often_sconst: "c \<noteq> 0 \<Longrightarrow> nonzero_infinitely_often (sconst c)"
  unfolding nonzero_infinitely_often_def by auto

text \<open>
  A two-step path over one year, on the constant stream of draws \<open>1/2\<close>.
\<close>

theorem gbm_path_nonnegative_witness:
  "\<exists>path s'. simulateGBMPath (Num 100) (Num 0.05) (Num 0.2) (Num 1) 2 (sconst (1/2))
                 = Some (path, s')
             \<and> length path = 3 \<and> path ! 0 = Num 100
             \<and> (\<forall>x \<in> set path. Num 0 \<le> x)
             \<and> (\<exists>e. \<bar>e\<bar> \<le> 700 \<and> path ! 1 = path ! 0 * Math_exp (Num e))"
proof -
  have range: "draws_in_range (sconst (1/2))" "draws_representable (sconst (1/2))"
    by (simp_all add: draws_in_range_def draws_representable_def)
  have often: "nonzero_infinitely_often (sconst (1/2 :: real))"
    by (rule nonzero_infinitely_often_sconst) simp
  have h: "(0::real) < 100" "(0::real) \<le> 1" "(1::real) \<le> 100" "\<bar>0.05::real\<bar> \<le> 1"
    "\<bar>0.2::real\<bar> \<le> 1" "(1::nat) \<le> 2"
    by simp_all
  have len: "(2::nat) + 1 < 2 ^ 32" by simp
  from gbm_path_nonnegative [OF h range len] often
  obtain path s' where p: "simulateGBMPath (Num 100) (Num 0.05) (Num 0.2) (Num 1) 2 (sconst (1/2))
                 = Some (path, s')"
    by blast
  from gbm_path_nonnegative [OF h range len] p
  have "length path = 2 + 1 \<and> path ! 0 = Num 100
          \<and> (\<forall>x \<in> set path. Num 0 \<le> x)
          \<and> (\<forall>i < 2. \<exists>e. \<bar>e\<bar> \<le> 700 \<and> path ! Suc i = path ! i * Math_exp (Num e))"
    by blast
  then have "length path = 3 \<and> path ! 0 = Num 100
          \<and> (\<forall>x \<in> set path. Num 0 \<le> x)
          \<and> (\<exists>e. \<bar>e\<bar> \<le> 700 \<and> path ! 1 = path ! 0 * Math_exp (Num e))"
    by (metis One_nat_def add.commute numeral_3_eq_3 plus_1_eq_Suc pos2 Suc_1 add_2_eq_Suc')
  then show ?thesis using p by blast
qed

section \<open>Properties of the Monte Carlo run\<close>

lemma simulateGBMPath_length:
  "simulateGBMPath S0 r sigma T steps s = Some (path, s') \<Longrightarrow> length path = steps + 1"
  using gbm_loop_length [of r sigma "T / Num (real steps)" steps "[S0]" s path s']
  by (simp add: simulateGBMPath_def)

lemma simulateGBMPath_returns:
  "nonzero_infinitely_often s \<Longrightarrow>
     \<exists>path k. simulateGBMPath S0 r sigma T steps s = Some (path, sdrop k s)"
  using gbm_loop_returns [of s r sigma "T / Num (real steps)" steps "[S0]"]
  by (simp add: simulateGBMPath_def)

lemma mc_loop_returns:
  "nonzero_infinitely_often s \<Longrightarrow> \<exists>st' k. mc_loop p n st s = Some (st', sdrop k s)"
proof (induction n arbitrary: st s)
  case 0
  have "mc_loop p 0 st s = Some (st, sdrop 0 s)" by simp
  then show ?case by blast
next
  case (Suc n)
  obtain path k where sim:
    "simulateGBMPath (mc_S0 p) (mc_r p) (mc_sigma p) (mc_T p) (mc_steps p) s
       = Some (path, sdrop k s)"
    using simulateGBMPath_returns [OF Suc.prems] by blast
  obtain st' m where "mc_loop p n (mc_record p st path) (sdrop k s)
                        = Some (st', sdrop m (sdrop k s))"
    using Suc.IH [OF nonzero_infinitely_often_sdrop [OF Suc.prems]] by blast
  then have "mc_loop p (Suc n) st s = Some (st', sdrop (k + m) s)"
    using sim by simp
  then show ?case by blast
qed

lemma mc_loop_state:
  "mc_loop p n st s = Some (st', s') \<Longrightarrow>
     \<exists>paths. length paths = n
       \<and> (\<forall>path \<in> set paths. length path = mc_steps p + 1)
       \<and> allPaths st' = allPaths st @ paths
       \<and> payoffs st' = payoffs st @ map (discounted_payoff p) paths
       \<and> sumPayoff st' = foldl (+) (sumPayoff st) (map (discounted_payoff p) paths)
       \<and> sumPayoffSquared st'
           = foldl (+) (sumPayoffSquared st)
               (map (\<lambda>path. discounted_payoff p path * discounted_payoff p path) paths)
       \<and> inTheMoneyCount st'
           = inTheMoneyCount st + length (filter (\<lambda>path. Num 0 < path_payoff p path) paths)"
proof (induction n arbitrary: st s)
  case 0
  then show ?case by simp
next
  case (Suc n)
  obtain path s1 where sim:
    "simulateGBMPath (mc_S0 p) (mc_r p) (mc_sigma p) (mc_T p) (mc_steps p) s = Some (path, s1)"
    using Suc.prems by (auto split: option.splits)
  have len: "length path = mc_steps p + 1" by (rule simulateGBMPath_length [OF sim])
  have "mc_loop p n (mc_record p st path) s1 = Some (st', s')"
    using Suc.prems sim by simp
  from Suc.IH [OF this] obtain paths where paths:
    "length paths = n"
    "\<forall>path \<in> set paths. length path = mc_steps p + 1"
    "allPaths st' = allPaths (mc_record p st path) @ paths"
    "payoffs st' = payoffs (mc_record p st path) @ map (discounted_payoff p) paths"
    "sumPayoff st' = foldl (+) (sumPayoff (mc_record p st path)) (map (discounted_payoff p) paths)"
    "sumPayoffSquared st'
       = foldl (+) (sumPayoffSquared (mc_record p st path))
           (map (\<lambda>path. discounted_payoff p path * discounted_payoff p path) paths)"
    "inTheMoneyCount st'
       = inTheMoneyCount (mc_record p st path)
         + length (filter (\<lambda>path. Num 0 < path_payoff p path) paths)"
    by blast
  show ?case
  proof (intro exI [of _ "path # paths"] conjI)
    show "length (path # paths) = Suc n" using paths(1) by simp
    show "\<forall>q \<in> set (path # paths). length q = mc_steps p + 1" using paths(2) len by simp
    show "allPaths st' = allPaths st @ path # paths"
      using paths(3) by (simp add: mc_record_def Let_def)
    show "payoffs st' = payoffs st @ map (discounted_payoff p) (path # paths)"
      using paths(4) by (simp add: mc_record_def Let_def)
    show "sumPayoff st' = foldl (+) (sumPayoff st) (map (discounted_payoff p) (path # paths))"
      using paths(5) by (simp add: mc_record_def Let_def)
    show "sumPayoffSquared st'
           = foldl (+) (sumPayoffSquared st)
               (map (\<lambda>path. discounted_payoff p path * discounted_payoff p path) (path # paths))"
      using paths(6) by (simp add: mc_record_def Let_def)
    show "inTheMoneyCount st'
           = inTheMoneyCount st
             + length (filter (\<lambda>path. Num 0 < path_payoff p path) (path # paths))"
      using paths(7) by (simp add: mc_record_def Let_def)
  qed
qed

lemma mc_loop_initial:
  assumes "mc_loop p n mc_initial s = Some (st, s')"
  shows "length (allPaths st) = n"
    and "\<forall>path \<in> set (allPaths st). length path = mc_steps p + 1"
    and "payoffs st = map (discounted_payoff p) (allPaths st)"
    and "sumPayoff st = js_sum (payoffs st)"
    and "sumPayoffSquared st = js_sum (map (\<lambda>x. x * x) (payoffs st))"
    and "inTheMoneyCount st
           = length (filter (\<lambda>path. Num 0 < path_payoff p path) (allPaths st))"
  using mc_loop_state [OF assms]
  by (auto simp: mc_initial_def js_sum_def comp_def)

lemma insert_by_difference_Num:
  "insert_by_difference (Num x) (map Num ys) = map Num (insort x ys)"
  by (induction ys) (auto simp: minus_jsnum_def)

lemma sort_by_difference_Num: "sort_by_difference (map Num rs) = map Num (sort rs)"
proof -
  have "foldr insert_by_difference (map Num rs) [] = map Num (foldr insort rs [])"
  proof (induction rs)
    case Nil
    then show ?case by simp
  next
    case (Cons x rs)
    then show ?case using insert_by_difference_Num [of x "foldr insort rs []"] by simp
  qed
  then show ?thesis by (simp add: sort_by_difference_def sort_key_def)
qed

lemma length_insert_by_difference [simp]:
  "length (insert_by_difference x ys) = Suc (length ys)"
  by (induction ys) simp_all

lemma length_sort_by_difference [simp]: "length (sort_by_difference xs) = length xs"
  unfolding sort_by_difference_def by (induction xs) simp_all

lemma index5th: "nat \<lfloor>real n * 0.05\<rfloor> = n div 20"
proof -
  have "real n * 0.05 = real n / 20" by simp
  then have "\<lfloor>real n * 0.05\<rfloor> = \<lfloor>real n / real 20\<rfloor>" by simp
  also have "\<dots> = int (n div 20)" by (simp only: floor_divide_of_nat_eq)
  finally show ?thesis by simp
qed

lemma index5th_in_range: "0 < n \<Longrightarrow> nat \<lfloor>real n * 0.05\<rfloor> < n"
  unfolding index5th by simp

lemma map_upt_shift: "map f [0..<Suc m] = f 0 # map (\<lambda>k. f (Suc k)) [0..<m]"
proof -
  have "[0..<Suc m] = 0 # [Suc 0..<Suc m]" by (rule upt_conv_Cons) simp
  also have "[Suc 0..<Suc m] = map Suc [0..<m]" by (rule map_Suc_upt [symmetric])
  finally have "map f [0..<Suc m] = map f (0 # map Suc [0..<m])" by (rule arg_cong)
  then show ?thesis by (simp only: list.map map_map comp_def)
qed

lemma stride_count:
  assumes "0 < (step::nat)" "i < n"
  shows "(n - i + step - 1) div step = Suc ((n - (i + step) + step - 1) div step)"
proof (cases "i + step \<le> n")
  case True
  define m where "m = n - (i + step) + step - 1"
  have "n - i + step - 1 = m + step" using True assms unfolding m_def by linarith
  moreover have "(m + step) div step = Suc (m div step)" using assms(1) by simp
  ultimately show ?thesis unfolding m_def by simp
next
  case False
  then have a: "n - (i + step) + step - 1 = step - 1" by linarith
  have "step * 1 \<le> n - i + step - 1" "n - i + step - 1 < step * Suc 1"
    using assms False by simp_all
  then have "(n - i + step - 1) div step = 1" by (rule div_nat_eqI)
  moreover have "(step - 1) div step = 0" using assms(1) by simp
  ultimately show ?thesis unfolding a by simp
qed

lemma visual_loop_selection:
  "visual_loop paths n i acc
     = acc @ map (\<lambda>k. paths ! (i + k * max 1 (n div 20)))
               [0 ..< min (20 - length acc) ((n - i + max 1 (n div 20) - 1) div max 1 (n div 20))]"
proof (induction paths n i acc rule: visual_loop.induct)
  case (1 paths n i acc)
  define step where "step = max 1 (n div 20)"
  have step: "0 < step" by (simp add: step_def)
  show ?case
  proof (cases "i < n")
    case False
    then have "(n - i + step - 1) div step = 0" using step by simp
    then show ?thesis using False by (subst visual_loop.simps) (simp add: step_def)
  next
    case True
    note cnt = stride_count [OF step True]
    show ?thesis
    proof (cases "length acc < 20")
      case short: True
      have "visual_loop paths n i acc = visual_loop paths n (i + step) (acc @ [paths ! i])"
        using True short by (subst visual_loop.simps) (simp add: step_def)
      also have "\<dots> = (acc @ [paths ! i]) @ map (\<lambda>k. paths ! (i + step + k * step))
               [0 ..< min (20 - length (acc @ [paths ! i])) ((n - (i + step) + step - 1) div step)]"
        using "1.IH" [OF True] short by (simp add: step_def)
      also have "\<dots> = acc @ map (\<lambda>k. paths ! (i + k * step))
               [0 ..< Suc (min (20 - length (acc @ [paths ! i])) ((n - (i + step) + step - 1) div step))]"
        unfolding map_upt_shift [of "\<lambda>k. paths ! (i + k * step)"]
        by (simp add: add.assoc)
      also have "Suc (min (20 - length (acc @ [paths ! i])) ((n - (i + step) + step - 1) div step))
                   = min (20 - length acc) ((n - i + step - 1) div step)"
        using short unfolding cnt by simp
      finally show ?thesis by (simp add: step_def)
    next
      case long: False
      have "visual_loop paths n i acc = visual_loop paths n (i + step) acc"
        using True long by (subst visual_loop.simps) (simp add: step_def)
      also have "\<dots> = acc"
        using "1.IH" [OF True] long by (simp add: step_def)
      finally show ?thesis using long by simp
    qed
  qed
qed

lemma visual_loop_from_start:
  "visual_loop paths n 0 []
     = map (\<lambda>k. paths ! (k * max 1 (n div 20)))
         [0 ..< min 20 ((n + max 1 (n div 20) - 1) div max 1 (n div 20))]"
  using visual_loop_selection [of paths n 0 "[]"] by simp

lemma stride_index_in_range:
  assumes "0 < (step::nat)" "k < (n + step - 1) div step"
  shows "k * step < n"
proof (rule ccontr)
  assume "\<not> k * step < n"
  then have "n + step - 1 \<le> k * step + (step - 1)" using assms(1) by linarith
  then have "(n + step - 1) div step \<le> (k * step + (step - 1)) div step"
    by (rule div_le_mono)
  also have "\<dots> = k"
  proof (rule div_nat_eqI)
    show "step * k \<le> k * step + (step - 1)" by (simp add: mult.commute)
    show "k * step + (step - 1) < step * Suc k" using assms(1) by (simp add: mult.commute)
  qed
  finally show False using assms(2) by simp
qed

lemma mc_results_fields:
  "optionPrice (mc_results p st) = sumPayoff st / Num (real (mc_iterations p))"
  "standardError (mc_results p st)
     = Math_sqrt ((sumPayoffSquared st / Num (real (mc_iterations p))
                    - optionPrice (mc_results p st) * optionPrice (mc_results p st))
                  / Num (real (mc_iterations p)))"
  "inTheMoneyProbability (mc_results p st)
     = Num (real (inTheMoneyCount st)) / Num (real (mc_iterations p)) * Num 100"
  "valueAtRisk (mc_results p st)
     = (case element_at (sort_by_difference (payoffs st)) (nat \<lfloor>real (mc_iterations p) * 0.05\<rfloor>) of
          None \<Rightarrow> NaN
        | Some payoff5th \<Rightarrow> optionPrice (mc_results p st) - payoff5th)"
  "visualPaths (mc_results p st) = visual_loop (allPaths st) (mc_iterations p) 0 []"
  by (simp_all add: mc_results_def Let_def split: option.splits)

lemma simulation_returns:
  "nonzero_infinitely_often s \<Longrightarrow> \<exists>res. runMonteCarloSimulation p s = Some res"
  using mc_loop_returns [of s p "mc_iterations p" mc_initial]
  by (auto simp: runMonteCarloSimulation_def)

lemma simulation_Some:
  "runMonteCarloSimulation p s = Some res \<Longrightarrow>
     \<exists>st s'. mc_loop p (mc_iterations p) mc_initial s = Some (st, s') \<and> res = mc_results p st"
  by (auto simp: runMonteCarloSimulation_def split: option.splits)

lemma gbm_loop_stream:
  "draws_in_range s \<Longrightarrow> gbm_loop r sigma dt n path s = Some (path', s') \<Longrightarrow> draws_in_range s'"
proof (induction n arbitrary: path s)
  case 0
  then show ?case by simp
next
  case (Suc n)
  obtain Z s1 where g: "generateGaussianRandom s = Some (Z, s1)"
    using Suc.prems(2) by (auto split: option.splits)
  obtain j where j: "s1 = sdrop (Suc j) s"
    using generateGaussianRandom_Some [OF Suc.prems(1) g] by blast
  have range: "draws_in_range s1"
    unfolding j by (rule draws_in_range_sdrop [OF Suc.prems(1)])
  let ?next = "path @ [last path * Math_exp ((r - Num 0.5 * sigma * sigma) * dt
                                               + sigma * Math_sqrt dt * Z)]"
  have "gbm_loop r sigma dt n ?next s1 = Some (path', s')"
    using Suc.prems(2) g by (simp add: Let_def)
  then show ?case by (rule Suc.IH [OF range])
qed

lemma simulateGBMPath_valid:
  assumes "valid_config p" "draws_in_range s"
    and sim: "simulateGBMPath (mc_S0 p) (mc_r p) (mc_sigma p) (mc_T p) (mc_steps p) s
                = Some (path, s')"
  shows "positive_number (last path)" and "draws_in_range s'"
proof -
  obtain S0 where S0: "mc_S0 p = Num S0" "0 < S0"
    using assms(1) unfolding valid_config_def positive_number_iff by auto
  obtain T where T: "mc_T p = Num T" "0 \<le> T"
    using assms(1) unfolding valid_config_def by (cases "mc_T p") auto
  obtain r where r: "mc_r p = Num r"
    using assms(1) unfolding valid_config_def by (cases "mc_r p") auto
  obtain sigma where sigma: "mc_sigma p = Num sigma"
    using assms(1) unfolding valid_config_def by (cases "mc_sigma p") auto
  have steps: "1 \<le> mc_steps p" using assms(1) unfolding valid_config_def by simp
  define d where "d = T / real (mc_steps p)"
  have d: "0 \<le> d" using T(2) by (simp add: d_def)
  have run: "gbm_loop (Num r) (Num sigma) (Num d) (mc_steps p) [Num S0] s = Some (path, s')"
    using sim steps unfolding S0 T r sigma by (simp add: simulateGBMPath_def d_def)
  have start: "\<forall>x \<in> set [Num S0]. positive_number x"
    using S0(2) by (simp add: positive_number_def)
  have nonempty: "[Num S0] \<noteq> []" by simp
  have all: "\<forall>x \<in> set path. positive_number x"
    by (rule gbm_loop_positive [OF d assms(2) nonempty start run])
  have "length path = mc_steps p + 1" by (rule simulateGBMPath_length [OF sim])
  then have "path \<noteq> []" by auto
  then have "last path \<in> set path" by simp
  then show "positive_number (last path)" using all by simp
  show "draws_in_range s'" by (rule gbm_loop_stream [OF assms(2) run])
qed

lemma discounted_payoff_finite:
  assumes "valid_config p" "positive_number (last path)"
  shows "isFinite (discounted_payoff p path)"
proof -
  obtain a where a: "last path = Num a"
    using assms(2) unfolding positive_number_iff by auto
  obtain K where K: "mc_K p = Num K"
    using assms(1) unfolding valid_config_def by (cases "mc_K p") auto
  obtain T where T: "mc_T p = Num T"
    using assms(1) unfolding valid_config_def by (cases "mc_T p") auto
  obtain r where r: "mc_r p = Num r"
    using assms(1) unfolding valid_config_def by (cases "mc_r p") auto
  show ?thesis
    by (simp add: discounted_payoff_def path_payoff_def Let_def a K T r minus_jsnum_def)
qed

lemma mc_loop_finite_payoffs:
  assumes "valid_config p"
  shows "draws_in_range s \<Longrightarrow> mc_loop p n st s = Some (st', s') \<Longrightarrow>
           \<forall>x \<in> set (payoffs st). isFinite x \<Longrightarrow> \<forall>x \<in> set (payoffs st'). isFinite x"
proof (induction n arbitrary: st s)
  case 0
  then show ?case by simp
next
  case (Suc n)
  obtain path s1 where sim:
    "simulateGBMPath (mc_S0 p) (mc_r p) (mc_sigma p) (mc_T p) (mc_steps p) s = Some (path, s1)"
    using Suc.prems(2) by (auto split: option.splits)
  note v = simulateGBMPath_valid [OF assms Suc.prems(1) sim]
  have loop: "mc_loop p n (mc_record p st path) s1 = Some (st', s')"
    using Suc.prems(2) sim by simp
  have "\<forall>x \<in> set (payoffs (mc_record p st path)). isFinite x"
    using Suc.prems(3) discounted_payoff_finite [OF assms v(1)]
    by (simp add: mc_record_def Let_def)
  then show ?case by (rule Suc.IH [OF v(2) loop])
qed

lemma finite_list_Num: "\<forall>x \<in> set xs. isFinite x \<Longrightarrow> \<exists>rs. xs = map Num rs"
proof (induction xs)
  case Nil
  then show ?case by simp
next
  case (Cons x xs)
  then obtain rs where "xs = map Num rs" by auto
  moreover obtain a where "x = Num a" using Cons.prems by (cases x) auto
  ultimately have "x # xs = map Num (a # rs)" by simp
  then show ?case by (rule exI)
qed

text \<open>
  Claim C4. For every simulation run with \<open>N > 0\<close> iterations: the run returns whenever
  non-zero draws keep coming, and its \<open>valueAtRisk\<close> equals \<open>optionPrice\<close> minus the
  element at index \<open>floor (0.05 * N)\<close> of the sorted array of the \<open>N\<close> discounted payoffs
  (one per simulated path), where \<open>optionPrice\<close> is their sum divided by \<open>N\<close>. The index
  is within the array. When the payoffs are finite numbers the sorted array is their
  ascending arrangement, and they are finite for every valid configuration.
\<close>

theorem value_at_risk_quantile:
  assumes "0 < mc_iterations p"
  shows "(nonzero_infinitely_often s \<longrightarrow> (\<exists>res. runMonteCarloSimulation p s = Some res))
       \<and> (\<forall>res. runMonteCarloSimulation p s = Some res \<longrightarrow>
            (\<exists>st s'. mc_loop p (mc_iterations p) mc_initial s = Some (st, s')
               \<and> length (payoffs st) = mc_iterations p
               \<and> payoffs st = map (discounted_payoff p) (allPaths st)
               \<and> optionPrice res = js_sum (payoffs st) / Num (real (mc_iterations p))
               \<and> nat \<lfloor>0.05 * real (mc_iterations p)\<rfloor> < mc_iterations p
               \<and> valueAtRisk res
                   = optionPrice res
                     - sort_by_difference (payoffs st) ! nat \<lfloor>0.05 * real (mc_iterations p)\<rfloor>
               \<and> (\<forall>rs. payoffs st = map Num rs \<longrightarrow>
                      sort_by_difference (payoffs st) = map Num (sort rs))
               \<and> (valid_config p \<and> draws_in_range s \<longrightarrow> (\<exists>rs. payoffs st = map Num rs))))"
proof (intro conjI impI allI)
  assume "nonzero_infinitely_often s"
  then show "\<exists>res. runMonteCarloSimulation p s = Some res" by (rule simulation_returns)
next
  fix res
  assume "runMonteCarloSimulation p s = Some res"
  then obtain st s' where loop: "mc_loop p (mc_iterations p) mc_initial s = Some (st, s')"
    and res: "res = mc_results p st"
    using simulation_Some by blast
  note st = mc_loop_initial [OF loop]
  have len: "length (payoffs st) = mc_iterations p" using st(1,3) by simp
  have idx_eq: "nat \<lfloor>0.05 * real (mc_iterations p)\<rfloor> = nat \<lfloor>real (mc_iterations p) * 0.05\<rfloor>"
    by (simp add: mult.commute)
  have idx: "nat \<lfloor>0.05 * real (mc_iterations p)\<rfloor> < mc_iterations p"
    unfolding idx_eq by (rule index5th_in_range [OF assms])
  have price: "optionPrice res = js_sum (payoffs st) / Num (real (mc_iterations p))"
    unfolding res mc_results_fields(1) st(4) ..
  have "element_at (sort_by_difference (payoffs st)) (nat \<lfloor>real (mc_iterations p) * 0.05\<rfloor>)
          = Some (sort_by_difference (payoffs st) ! nat \<lfloor>real (mc_iterations p) * 0.05\<rfloor>)"
    using idx len unfolding idx_eq by (simp add: element_at_def)
  then have var: "valueAtRisk res
                   = optionPrice res
                     - sort_by_difference (payoffs st) ! nat \<lfloor>0.05 * real (mc_iterations p)\<rfloor>"
    unfolding res mc_results_fields(4) idx_eq by simp
  have sorted: "\<forall>rs. payoffs st = map Num rs \<longrightarrow>
                      sort_by_difference (payoffs st) = map Num (sort rs)"
    by (simp add: sort_by_difference_Num)
  have fin: "\<exists>rs. payoffs st = map Num rs" if "valid_config p \<and> draws_in_range s"
  proof -
    have "\<forall>x \<in> set (payoffs mc_initial). isFinite x" by (simp add: mc_initial_def)
    then have "\<forall>x \<in> set (payoffs st). isFinite x"
      using mc_loop_finite_payoffs [of p s "mc_iterations p" mc_initial st s'] that loop by blast
    then show ?thesis by (rule finite_list_Num)
  qed
  show "\<exists>st s'. mc_loop p (mc_iterations p) mc_initial s = Some (st, s')
               \<and> length (payoffs st) = mc_iterations p
               \<and> payoffs st = map (discounted_payoff p) (allPaths st)
               \<and> optionPrice res = js_sum (payoffs st) / Num (real (mc_iterations p))
               \<and> nat \<lfloor>0.05 * real (mc_iterations p)\<rfloor> < mc_iterations p
               \<and> valueAtRisk res
                   = optionPrice res
                     - sort_by_difference (payoffs st) ! nat \<lfloor>0.05 * real (mc_iterations p)\<rfloor>
               \<and> (\<forall>rs. payoffs st = map Num rs \<longrightarrow>
                      sort_by_difference (payoffs st) = map Num (sort rs))
               \<and> (valid_config p \<and> draws_in_range s \<longrightarrow> (\<exists>rs. payoffs st = map Num rs))"
    using loop len st(3) price idx var sorted fin by (intro exI [of _ st] exI [of _ s']) simp
qed

lemma example_gaussian:
  "generateGaussianRandom (cycle [1/2, 1/4]) = Some (Num 0, cycle [1/2, 1/4])"
  by (simp add: generateGaussianRandom_def draw_nonzero.simps Math_PI_def)

lemma example_path:
  "simulateGBMPath (Num 100) (Num (1 / 50)) (Num (1 / 5)) (Num 1) (Suc 0) (cycle [1/2, 1/4])
     = Some ([Num 100, Num 100], cycle [1/2, 1/4])"
  by (simp add: simulateGBMPath_def example_gaussian Let_def minus_jsnum_def)

lemma example_loop:
  "mc_loop example_params 2 mc_initial example_draws
     = Some (\<lparr> allPaths = [[Num 100, Num 100], [Num 100, Num 100]],
               payoffs = [Num (10 * exp (- (1/50))), Num (10 * exp (- (1/50)))],
               sumPayoff = Num (20 * exp (- (1/50))),
               sumPayoffSquared = Num (200 * (exp (- (1/50)) * exp (- (1/50)))),
               inTheMoneyCount = 2 \<rparr>, example_draws)"
  by (simp add: numeral_2_eq_2 example_params_def example_draws_def example_path mc_record_def
      mc_initial_def discounted_payoff_def path_payoff_def Let_def minus_jsnum_def)

lemma example_run:
  "runMonteCarloSimulation example_params example_draws
     = Some \<lparr> optionPrice = Num (10 * exp (- (1/50))), standardError = Num 0,
              inTheMoneyProbability = Num 100, valueAtRisk = Num 0,
              visualPaths = [[Num 100, Num 100], [Num 100, Num 100]] \<rparr>"
proof -
  have n: "mc_iterations example_params = 2" by (simp add: example_params_def)
  have vis: "visual_loop [[Num 100, Num 100], [Num 100, Num 100]] 2 0 []
               = [[Num 100, Num 100], [Num 100, Num 100]]"
    by (simp add: visual_loop.simps)
  have srt: "sort_by_difference [Num (10 * exp (- (1/50))), Num (10 * exp (- (1/50)))]
               = [Num (10 * exp (- (1/50))), Num (10 * exp (- (1/50)))]"
    by (simp add: sort_by_difference_def minus_jsnum_def)
  show ?thesis
    unfolding runMonteCarloSimulation_def n example_loop
    by (simp add: mc_results_def Let_def n vis srt element_at_def minus_jsnum_def)
qed

lemma nonzero_infinitely_often_no_zero: "0 \<notin> sset s \<Longrightarrow> nonzero_infinitely_often s"
  unfolding nonzero_infinitely_often_def by (metis order_refl snth_sset)

lemma example_draws_ok: "draws_in_range example_draws" "nonzero_infinitely_often example_draws"
proof -
  show "draws_in_range example_draws"
    by (simp add: draws_in_range_def example_draws_def)
  have "0 \<notin> sset example_draws" by (simp add: example_draws_def)
  then show "nonzero_infinitely_often example_draws"
    by (rule nonzero_infinitely_often_no_zero)
qed

text \<open>
  A run of two one-step paths with \<open>S0 = 100\<close>, \<open>K = 90\<close>, \<open>T = 1\<close>, \<open>r = 0.02\<close>,
  \<open>sigma = 0.2\<close> on draws that alternate between \<open>1/2\<close> and \<open>1/4\<close>: every Gaussian
  sample is 0, both paths stay at 100, and the value at risk is 0.
\<close>

theorem value_at_risk_quantile_witness:
  "0 < mc_iterations example_params
   \<and> valid_config example_params \<and> draws_in_range example_draws
   \<and> nonzero_infinitely_often example_draws
   \<and> (\<exists>res st s' rs.
         runMonteCarloSimulation example_params example_draws = Some res
       \<and> mc_loop example_params (mc_iterations example_params) mc_initial example_draws
             = Some (st, s')
       \<and> payoffs st = map Num rs
       \<and> valueAtRisk res
           = optionPrice res
             - map Num (sort rs) ! nat \<lfloor>0.05 * real (mc_iterations example_params)\<rfloor>)
   \<and> runMonteCarloSimulation example_params example_draws
       = Some \<lparr> optionPrice = Num (10 * exp (- (1/50))), standardError = Num 0,
                inTheMoneyProbability = Num 100, valueAtRisk = Num 0,
                visualPaths = [[Num 100, Num 100], [Num 100, Num 100]] \<rparr>"
proof -
  have n: "0 < mc_iterations example_params" by (simp add: example_params_def)
  have v: "valid_config example_params"
    by (simp add: valid_config_def example_params_def positive_number_def)
  from value_at_risk_quantile [OF n, of example_draws] example_draws_ok v
  have "\<exists>res st s' rs.
         runMonteCarloSimulation example_params example_draws = Some res
       \<and> mc_loop example_params (mc_iterations example_params) mc_initial example_draws
             = Some (st, s')
       \<and> payoffs st = map Num rs
       \<and> valueAtRisk res
           = optionPrice res
             - map Num (sort rs) ! nat \<lfloor>0.05 * real (mc_iterations example_params)\<rfloor>"
    by (metis (no_types, lifting))
  then show ?thesis using n v example_draws_ok by (simp add: example_run)
qed

text \<open>
  Claim C6. For every simulation run of \<open>N\<close> iterations: the run returns whenever
  non-zero draws keep coming; the paths selected for display are the paths at the
  indices \<open>0, step, 2 * step, ...\<close> below \<open>N\<close> with \<open>step = max 1 (N div 20)\<close>, cut off after
  20 of them, each one a full path of \<open>steps + 1\<close> points taken from the \<open>N\<close> simulated
  paths; and \<open>optionPrice\<close>, \<open>standardError\<close>, \<open>inTheMoneyProbability\<close> and
  \<open>valueAtRisk\<close> are functions of the payoffs of all \<open>N\<close> paths, in which the selection
  does not occur.
\<close>

theorem visual_paths_and_statistics:
  "(nonzero_infinitely_often s \<longrightarrow> (\<exists>res. runMonteCarloSimulation p s = Some res))
   \<and> (\<forall>res. runMonteCarloSimulation p s = Some res \<longrightarrow>
        (\<exists>st s'. mc_loop p (mc_iterations p) mc_initial s = Some (st, s')
           \<and> length (allPaths st) = mc_iterations p
           \<and> (\<forall>path \<in> set (allPaths st). length path = mc_steps p + 1)
           \<and> payoffs st = map (discounted_payoff p) (allPaths st)
           \<and> visualPaths res
               = map (\<lambda>k. allPaths st ! (k * max 1 (mc_iterations p div 20)))
                   [0 ..< min 20 ((mc_iterations p + max 1 (mc_iterations p div 20) - 1)
                                    div max 1 (mc_iterations p div 20))]
           \<and> length (visualPaths res) \<le> 20
           \<and> set (visualPaths res) \<subseteq> set (allPaths st)
           \<and> optionPrice res = js_sum (payoffs st) / Num (real (mc_iterations p))
           \<and> standardError res
               = Math_sqrt ((js_sum (map (\<lambda>x. x * x) (payoffs st)) / Num (real (mc_iterations p))
                              - optionPrice res * optionPrice res)
                            / Num (real (mc_iterations p)))
           \<and> inTheMoneyProbability res
               = Num (real (length (filter (\<lambda>path. Num 0 < path_payoff p path) (allPaths st))))
                   / Num (real (mc_iterations p)) * Num 100
           \<and> valueAtRisk res
               = (case element_at (sort_by_difference (payoffs st))
                         (nat \<lfloor>real (mc_iterations p) * 0.05\<rfloor>) of
                    None \<Rightarrow> NaN
                  | Some payoff5th \<Rightarrow> optionPrice res - payoff5th)))"
proof (intro conjI impI allI)
  assume "nonzero_infinitely_often s"
  then show "\<exists>res. runMonteCarloSimulation p s = Some res" by (rule simulation_returns)
next
  fix res
  assume "runMonteCarloSimulation p s = Some res"
  then obtain st s' where loop: "mc_loop p (mc_iterations p) mc_initial s = Some (st, s')"
    and res: "res = mc_results p st"
    using simulation_Some by blast
  note st = mc_loop_initial [OF loop]
  define step where "step = max 1 (mc_iterations p div 20)"
  define cnt where "cnt = (mc_iterations p + step - 1) div step"
  have step: "0 < step" by (simp add: step_def)
  have vis: "visualPaths res = map (\<lambda>k. allPaths st ! (k * step)) [0 ..< min 20 cnt]"
    unfolding res mc_results_fields(5) visual_loop_from_start step_def cnt_def ..
  have len: "length (visualPaths res) \<le> 20" unfolding vis by simp
  have sub: "set (visualPaths res) \<subseteq> set (allPaths st)"
  proof
    fix q assume "q \<in> set (visualPaths res)"
    then obtain k where k: "k < min 20 cnt" "q = allPaths st ! (k * step)"
      unfolding vis by auto
    then have "k < (mc_iterations p + step - 1) div step" by (simp add: cnt_def)
    then have "k * step < length (allPaths st)"
      unfolding st(1) by (rule stride_index_in_range [OF step])
    then show "q \<in> set (allPaths st)" unfolding k(2) by (rule nth_mem)
  qed
  have price: "optionPrice res = js_sum (payoffs st) / Num (real (mc_iterations p))"
    unfolding res mc_results_fields(1) st(4) ..
  have err: "standardError res
               = Math_sqrt ((js_sum (map (\<lambda>x. x * x) (payoffs st)) / Num (real (mc_iterations p))
                              - optionPrice res * optionPrice res)
                            / Num (real (mc_iterations p)))"
    unfolding res mc_results_fields(2) st(5) ..
  have itm: "inTheMoneyProbability res
               = Num (real (length (filter (\<lambda>path. Num 0 < path_payoff p path) (allPaths st))))
                   / Num (real (mc_iterations p)) * Num 100"
    unfolding res mc_results_fields(3) st(6) ..
  have var: "valueAtRisk res
               = (case element_at (sort_by_difference (payoffs st))
                         (nat \<lfloor>real (mc_iterations p) * 0.05\<rfloor>) of
                    None \<Rightarrow> NaN
                  | Some payoff5th \<Rightarrow> optionPrice res - payoff5th)"
    unfolding res by (rule mc_results_fields(4))
  show "\<exists>st s'. mc_loop p (mc_iterations p) mc_initial s = Some (st, s')
           \<and> length (allPaths st) = mc_iterations p
           \<and> (\<forall>path \<in> set (allPaths st). length path = mc_steps p + 1)
           \<and> payoffs st = map (discounted_payoff p) (allPaths st)
           \<and> visualPaths res
               = map (\<lambda>k. allPaths st ! (k * max 1 (mc_iterations p div 20)))
                   [0 ..< min 20 ((mc_iterations p + max 1 (mc_iterations p div 20) - 1)
                                    div max 1 (mc_iterations p div 20))]
           \<and> length (visualPaths res) \<le> 20
           \<and> set (visualPaths res) \<subseteq> set (allPaths st)
           \<and> optionPrice res = js_sum (payoffs st) / Num (real (mc_iterations p))
           \<and> standardError res
               = Math_sqrt ((js_sum (map (\<lambda>x. x * x) (payoffs st)) / Num (real (mc_iterations p))
                              - optionPrice res * optionPrice res)
                            / Num (real (mc_iterations p)))
           \<and> inTheMoneyProbability res
               = Num (real (length (filter (\<lambda>path. Num 0 < path_payoff p path) (allPaths st))))
                   / Num (real (mc_iterations p)) * Num 100
           \<and> valueAtRisk res
               = (case element_at (sort_by_difference (payoffs st))
                         (nat \<lfloor>real (mc_iterations p) * 0.05\<rfloor>) of
                    None \<Rightarrow> NaN
                  | Some payoff5th \<Rightarrow> optionPrice res - payoff5th)"
    using loop st(1,2,3) vis [unfolded step_def cnt_def] len sub price err itm var
    by (intro exI [of _ st] exI [of _ s']) (simp add: step_def)
qed

text \<open>The same run of two paths: both are selected for display.\<close>

theorem visual_paths_and_statistics_witness:
  "nonzero_infinitely_often example_draws
   \<and> (\<exists>res st s'.
         runMonteCarloSimulation example_params example_draws = Some res
       \<and> mc_loop example_params (mc_iterations example_params) mc_initial example_draws
             = Some (st, s')
       \<and> length (visualPaths res) \<le> 20
       \<and> set (visualPaths res) \<subseteq> set (allPaths st)
       \<and> optionPrice res = js_sum (payoffs st) / Num (real (mc_iterations example_params)))
   \<and> runMonteCarloSimulation example_params example_draws
       = Some \<lparr> optionPrice = Num (10 * exp (- (1/50))), standardError = Num 0,
                inTheMoneyProbability = Num 100, valueAtRisk = Num 0,
                visualPaths = [[Num 100, Num 100], [Num 100, Num 100]] \<rparr>"
proof -
  from visual_paths_and_statistics [of example_draws example_params] example_draws_ok(2)
  have "\<exists>res st s'.
         runMonteCarloSimulation example_params example_draws = Some res
       \<and> mc_loop example_params (mc_iterations example_params) mc_initial example_draws
             = Some (st, s')
       \<and> length (visualPaths res) \<le> 20
       \<and> set (visualPaths res) \<subseteq> set (allPaths st)
       \<and> optionPrice res = js_sum (payoffs st) / Num (real (mc_iterations example_params))"
    by (metis (no_types, lifting))
  then show ?thesis using example_draws_ok(2) by (simp add: example_run)
qed

end
